theory Spec2Isabelle
  imports Main "HOL-Library.Word"
begin

unbundle bit_operations_syntax

section \<open>The tracing runtime of Giri (runtime/Giri/Tracing.cpp)\<close>

text \<open>
  The runtime keeps all of its data in process-wide variables. The model threads one
  record, \<open>state\<close>, through every function: the variables of Tracing.cpp and, beside
  them, the part of the environment the functions act on (the trace file behind the
  descriptor, the two output streams, the calling thread, the process's exit handler).

  \<^item> \<open>unsigned\<close> is a 32-bit word, so \<open>++\<close> and \<open>--\<close> wrap as they do in C++.
  \<^item> Pointers and \<open>uintptr_t\<close> are 64-bit words (an LP64 target).
  \<^item> \<open>off_t\<close> is an unbounded \<open>int\<close>: signed overflow of the file offset is undefined
    in C++ and is not part of the model.
  \<^item> A function that calls \<open>abort()\<close>, or fails an \<open>assert\<close>, returns \<open>Inl (Abort s)\<close>
    with the state \<open>s\<close> in which it did so. An access outside an array or outside the
    mapped window is undefined behaviour in C++; the model returns \<open>Inl (Fault s)\<close>.
  \<^item> \<open>sizeof (Entry)\<close> comes from Giri/Runtime.h, which is not among the sources: it
    is the parameter \<open>sz\<close> of every function that depends on it.
  \<^item> The memory of the traced program, which the string hooks and one \<open>%s\<close> read, is
    a map from an address to the byte there, \<open>None\<close> where a read traps.
\<close>

type_synonym u32 = "32 word"
type_synonym ptr = "64 word"

subsection \<open>Entries\<close>

text \<open>
  Modelled from the spec: the declaration of \<open>Entry\<close> and of its type tags is in
  Giri/Runtime.h, which is missing. The spec gives an entry four fields (kind, id, address,
  length) and eight kinds; the tags keep the names Tracing.cpp uses for them. The
  constructor \<open>Entry (type, id, address, length)\<close> stores its arguments; Tracing.cpp calls
  it with two, three and four arguments, the absent ones being zero.
\<close>

datatype EntryType =
  BBType | LDType | STType | CLType | RTType | INVType | PDType | ENType

record Entry =
  etype :: EntryType
  eid :: u32
  eaddress :: ptr
  elength :: ptr

definition newEntry :: "EntryType \<Rightarrow> u32 \<Rightarrow> ptr \<Rightarrow> ptr \<Rightarrow> Entry" where
  "newEntry t i a l = \<lparr>etype = t, eid = i, eaddress = a, elength = l\<rparr>"

subsection \<open>The program state\<close>

text \<open>The elements of \<open>BBStack\<close> and of \<open>FNStack\<close>.\<close>

record BBFrame =
  bbid :: u32
  bbaddress :: ptr

record FNFrame =
  fnid :: u32
  fnAddress :: ptr

text \<open>
  \<open>struct entryCache\<close>. The pointer \<open>cache\<close> is \<open>None\<close> when null and \<open>Some b\<close> when
  it points to a window of the trace file mapped at byte offset \<open>b\<close>.
\<close>

record entryCache =
  index :: u32
  cache :: "int option"
  fileOffset :: int
  fd :: int

text \<open>What the runtime prints, one constructor for each format string.\<close>

datatype diag =
  InsideUpdateThreadID
  | MoreThreadsWarning
  | AbnormalTermination int
  | WritingCacheData
  | EntrySizeDoesNotDivide nat
  | OpenedTraceFile string
  | AtBasicBlockStart u32
  | BBStackOverflowed
  | ForceWritingTrace
  | AtBasicBlockEnd u32
  | FunctionIdMismatch u32
  | FNStackOverflowed
  | InsideRecordExtCall u32 ptr
  | InsideRecordExtCallRet u32 "8 word list" ptr
  | InsideHandlingFunction string

text \<open>
  The trace file is a map from a byte offset to the entry stored at that offset. The
  mapping is shared (\<open>MAP_SHARED\<close>), so a store through \<open>cache\<close> is a store into the
  file. \<open>mmapFails\<close> lists the file offsets at which the environment refuses a mapping;
  the other system calls are taken to succeed, as the source does (it ignores their
  results). \<open>appended\<close> is no variable of the program: it lists the arguments of the
  calls of \<open>addToEntryCache\<close>, in the order of the calls, since the file was opened.
\<close>

record state =
  recordFD :: int
  handlerThreadID :: ptr
  countUpdateThreadID :: int
  BBStackIndex :: u32
  BBStack :: "u32 \<Rightarrow> BBFrame"
  FNStackIndex :: u32
  FNStack :: "u32 \<Rightarrow> FNFrame"
  trace_index :: u32
  entryCache :: entryCache
  pthread_self :: ptr
  memory :: "ptr \<Rightarrow> 8 word option"
  traceFile :: "int \<Rightarrow> Entry option"
  appended :: "Entry list"
  filePos :: int
  fileSize :: int
  mmapFails :: "int list"
  atexitRegistered :: bool
  handlersInstalled :: bool
  out :: "diag list"
  err :: "diag list"

datatype error = Abort state | Fault state | Exit int state

definition maxBBStack :: u32 where
  "maxBBStack = 4096"

definition maxFNStack :: u32 where
  "maxFNStack = 4096"

definition entryCacheSizeinBytes :: nat where
  "entryCacheSizeinBytes = 256 * 1024 * 1024"

definition entryCacheSize :: "nat \<Rightarrow> u32" where
  "entryCacheSize sz = of_nat (entryCacheSizeinBytes div sz)"

subsection \<open>Thread identity\<close>

definition updateThreadID :: "state \<Rightarrow> state" where
  "updateThreadID s =
     (let s1 = s\<lparr>out := out s @ [InsideUpdateThreadID]\<rparr>;
          s2 = s1\<lparr>handlerThreadID := pthread_self s1\<rparr>;
          s3 = s2\<lparr>countUpdateThreadID := countUpdateThreadID s2 + 1\<rparr>
      in if countUpdateThreadID s3 > 2
         then s3\<lparr>out := out s3 @ [MoreThreadsWarning]\<rparr>
         else s3)"

text \<open>The body after \<open>return false\<close> is inside \<open>#if 0\<close>.\<close>

definition checkForNonHandlerThread :: "state \<Rightarrow> bool" where
  "checkForNonHandlerThread s = False"

subsection \<open>The entry cache\<close>

text \<open>
  The three lines that extend the file: \<open>lseek\<close> moves the position forward by
  \<open>entryCacheSizeinBytes + 1\<close> and returns the new position, \<open>write\<close> stores one zero
  byte there, and the second \<open>lseek\<close> goes back to the position \<open>lseek\<close> returned.
  The model is pessimistic about the zero byte: an entry whose bytes include the
  position written is dropped from the file map.
\<close>

definition zeroByteAt :: "nat \<Rightarrow> int \<Rightarrow> (int \<Rightarrow> Entry option) \<Rightarrow> (int \<Rightarrow> Entry option)" where
  "zeroByteAt sz p f = (\<lambda>off. if off \<le> p \<and> p < off + int sz then None else f off)"

definition extendFile :: "nat \<Rightarrow> state \<Rightarrow> state" where
  "extendFile sz s =
     (let currentPosition = filePos s + (int entryCacheSizeinBytes + 1)
      in s\<lparr>traceFile := zeroByteAt sz currentPosition (traceFile s),
           fileSize := max (fileSize s) (currentPosition + 1),
           filePos := currentPosition\<rparr>)"

text \<open>\<open>mmap\<close> of one window at the cache's file offset, and the \<open>assert\<close> after it.\<close>

definition mapWindow :: "state \<Rightarrow> error + state" where
  "mapWindow s =
     (let off = fileOffset (entryCache s)
      in if off \<in> set (mmapFails s)
         then Inl (Abort (s\<lparr>entryCache := (entryCache s)\<lparr>cache := None\<rparr>\<rparr>))
         else Inr (s\<lparr>entryCache := (entryCache s)\<lparr>cache := Some off\<rparr>\<rparr>))"

definition openFD :: "nat \<Rightarrow> int \<Rightarrow> state \<Rightarrow> error + state" where
  "openFD sz FD s =
     (let s1 = s\<lparr>entryCache := \<lparr>index = 0, cache = None, fileOffset = 0, fd = FD\<rparr>\<rparr>
      in mapWindow (extendFile sz s1))"

text \<open>
  \<open>msync\<close> and \<open>munmap\<close> leave the file as the stores made it; the mapping itself is
  replaced by the next \<open>mmap\<close>.
\<close>

definition flushCache :: "nat \<Rightarrow> state \<Rightarrow> error + state" where
  "flushCache sz s =
     (let s1 = s\<lparr>entryCache := (entryCache s)
                  \<lparr>fileOffset := fileOffset (entryCache s) + int entryCacheSizeinBytes\<rparr>\<rparr>
      in case mapWindow (extendFile sz s1) of
           Inl e \<Rightarrow> Inl e
         | Inr s2 \<Rightarrow> Inr (s2\<lparr>entryCache := (entryCache s2)\<lparr>index := 0\<rparr>\<rparr>))"

definition flushEntryCache :: "nat \<Rightarrow> state \<Rightarrow> error + state" where
  "flushEntryCache sz s = flushCache sz s"

text \<open>
  \<open>entryCache.cache[entryCache.index] = entry\<close> stores at byte
  \<open>sizeof (Entry) * index\<close> of the window. The window has room for \<open>entryCacheSize\<close>
  entries; a store through a null pointer or past the window is a fault.
\<close>

definition addToEntryCache :: "nat \<Rightarrow> Entry \<Rightarrow> state \<Rightarrow> error + state" where
  "addToEntryCache sz entry s =
     (case (if index (entryCache s) = entryCacheSize sz
            then flushEntryCache sz (s\<lparr>appended := appended s @ [entry]\<rparr>)
            else Inr (s\<lparr>appended := appended s @ [entry]\<rparr>)) of
        Inl e \<Rightarrow> Inl e
      | Inr s1 \<Rightarrow>
          (case cache (entryCache s1) of
             None \<Rightarrow> Inl (Fault s1)
           | Some base \<Rightarrow>
               if \<not> index (entryCache s1) < entryCacheSize sz then Inl (Fault s1)
               else Inr (s1\<lparr>traceFile := (traceFile s1)
                              (base + int sz * uint (index (entryCache s1)) \<mapsto> entry),
                            entryCache := (entryCache s1)
                              \<lparr>index := index (entryCache s1) + 1\<rparr>,
                            trace_index := trace_index s1 + 1\<rparr>)))"

lemma addToEntryCache_BBStackIndex:
  "addToEntryCache sz entry s = Inr s' \<Longrightarrow> BBStackIndex s' = BBStackIndex s"
  by (auto simp: addToEntryCache_def flushEntryCache_def flushCache_def mapWindow_def
      extendFile_def Let_def split: if_splits sum.splits option.splits)

subsection \<open>Teardown\<close>

text \<open>The \<open>while\<close> loop of \<open>closeCacheFile\<close>: one termination entry for each open block.\<close>

function closeCacheFile_loop :: "nat \<Rightarrow> state \<Rightarrow> error + state" where
  "closeCacheFile_loop sz s =
     (if BBStackIndex s > 0 then
        (let s1 = s\<lparr>BBStackIndex := BBStackIndex s - 1\<rparr>
         in if \<not> BBStackIndex s1 < maxBBStack then Inl (Fault s1)
            else
              (case addToEntryCache sz
                      (newEntry BBType (bbid (BBStack s1 (BBStackIndex s1)))
                         (bbaddress (BBStack s1 (BBStackIndex s1))) 0) s1 of
                 Inl e \<Rightarrow> Inl e
               | Inr s2 \<Rightarrow> closeCacheFile_loop sz s2))
      else Inr s)"
  by pat_completeness auto
termination
proof (relation "measure (\<lambda>(sz, s). unat (BBStackIndex s))")
  show "wf (measure (\<lambda>(sz, s). unat (BBStackIndex s)))"
    by simp
next
  fix sz :: nat and s x :: state and x2 :: state
  assume pos: "0 < BBStackIndex s"
    and x: "x = s\<lparr>BBStackIndex := BBStackIndex s - 1\<rparr>"
    and add: "addToEntryCache sz
               (newEntry BBType (bbid (BBStack x (BBStackIndex x)))
                  (bbaddress (BBStack x (BBStackIndex x))) 0) x = Inr x2"
  from add have "BBStackIndex x2 = BBStackIndex x"
    by (rule addToEntryCache_BBStackIndex)
  with x have "BBStackIndex x2 = BBStackIndex s - 1"
    by simp
  moreover from pos have "BBStackIndex s \<noteq> 0"
    by auto
  ultimately show "((sz, x2), (sz, s)) \<in> measure (\<lambda>(sz, s). unat (BBStackIndex s))"
    by (simp add: measure_unat)
qed

definition closeCacheFile :: "nat \<Rightarrow> state \<Rightarrow> error + state" where
  "closeCacheFile sz s =
     (case closeCacheFile_loop sz (s\<lparr>out := out s @ [WritingCacheData]\<rparr>) of
        Inl e \<Rightarrow> Inl e
      | Inr s1 \<Rightarrow>
          (case addToEntryCache sz (newEntry ENType 0 0 0) s1 of
             Inl e \<Rightarrow> Inl e
           | Inr s2 \<Rightarrow> flushEntryCache sz s2))"

text \<open>
  \<open>exit\<close> runs the function registered with \<open>atexit\<close> and ends the process;
  \<open>cleanup_only_tracing\<close> is the handler \<open>recordInit\<close> installs for the termination
  signals, \<open>SIGABRT\<close> among them, so it is also what a call of \<open>abort()\<close> runs once the
  handlers are installed.
\<close>

definition exitProcess :: "nat \<Rightarrow> int \<Rightarrow> state \<Rightarrow> error" where
  "exitProcess sz status s =
     (if atexitRegistered s
      then (case closeCacheFile sz s of Inl e \<Rightarrow> e | Inr s' \<Rightarrow> Exit status s')
      else Exit status s)"

definition cleanup_only_tracing :: "nat \<Rightarrow> int \<Rightarrow> state \<Rightarrow> error" where
  "cleanup_only_tracing sz signum s =
     exitProcess sz signum (s\<lparr>err := err s @ [AbnormalTermination signum]\<rparr>)"

definition raiseSIGABRT :: "nat \<Rightarrow> state \<Rightarrow> error" where
  "raiseSIGABRT sz s =
     (if handlersInstalled s then cleanup_only_tracing sz 6 s else Abort s)"

subsection \<open>Initialisation\<close>

text \<open>
  \<open>FD\<close> is what \<open>open\<close> returns: \<open>-1\<close> when it fails, else the descriptor of the file,
  created or truncated to length zero.
\<close>

definition recordInit :: "nat \<Rightarrow> string \<Rightarrow> int \<Rightarrow> state \<Rightarrow> error + state" where
  "recordInit sz name FD s =
     (if entryCacheSizeinBytes mod sz \<noteq> 0
      then Inl (Abort (s\<lparr>err := err s @ [EntrySizeDoesNotDivide sz]\<rparr>))
      else if FD = - 1 then Inl (Abort (s\<lparr>recordFD := FD\<rparr>))
      else
        (let s1 = s\<lparr>recordFD := FD, traceFile := Map.empty, appended := [],
                     filePos := 0, fileSize := 0,
                     out := out s @ [OpenedTraceFile name]\<rparr>
         in case openFD sz (recordFD s1) s1 of
              Inl e \<Rightarrow> Inl e
            | Inr s2 \<Rightarrow>
                Inr (updateThreadID (s2\<lparr>atexitRegistered := True,
                                        handlersInstalled := True\<rparr>))))"

subsection \<open>Strings in the traced program's memory\<close>

text \<open>
  The bytes of the string at \<open>p\<close>, without its terminator, read from the \<open>n\<close>-th on,
  as \<open>strlen\<close> and \<open>%s\<close> scan them: \<open>None\<close> when the scan reaches a byte it cannot
  read before it finds the terminator, or has gone through the whole address space.
\<close>

function cstringAt :: "(ptr \<Rightarrow> 8 word option) \<Rightarrow> ptr \<Rightarrow> nat \<Rightarrow> 8 word list option" where
  "cstringAt mem p n =
     (if 2 ^ 64 \<le> n then None
      else
        (case mem (p + of_nat n) of
           None \<Rightarrow> None
         | Some b \<Rightarrow>
             if b = 0 then Some []
             else (case cstringAt mem p (Suc n) of
                     None \<Rightarrow> None
                   | Some bs \<Rightarrow> Some (b # bs))))"
  by pat_completeness auto
termination
  by (relation "measure (\<lambda>(mem, p, n). 2 ^ 64 - n)") auto

declare cstringAt.simps [simp del]

definition strlen :: "(ptr \<Rightarrow> 8 word option) \<Rightarrow> ptr \<Rightarrow> nat option" where
  "strlen mem p = map_option length (cstringAt mem p 0)"

subsection \<open>The hooks\<close>

definition recordStartBB :: "nat \<Rightarrow> u32 \<Rightarrow> ptr \<Rightarrow> state \<Rightarrow> error + state" where
  "recordStartBB sz id' fp s =
     (if checkForNonHandlerThread s then Inr s
      else
        (let s1 = (if id' \<ge> 190525 \<and> id' \<le> 190532
                   then s\<lparr>out := out s @ [AtBasicBlockStart id']\<rparr> else s)
         in if BBStackIndex s1 = maxBBStack
            then Inl (Abort (s1\<lparr>err := err s1 @ [BBStackOverflowed]\<rparr>))
            else if \<not> BBStackIndex s1 < maxBBStack then Inl (Fault s1)
            else
              (let s2 = s1\<lparr>BBStack := (BBStack s1)
                             (BBStackIndex s1 := \<lparr>bbid = id', bbaddress = fp\<rparr>),
                           BBStackIndex := BBStackIndex s1 + 1\<rparr>
               in if id' = 190531
                  then (case closeCacheFile sz (s2\<lparr>err := err s2 @ [ForceWritingTrace]\<rparr>) of
                          Inl e \<Rightarrow> Inl e
                        | Inr s3 \<Rightarrow> Inl (Abort s3))
                  else Inr s2)))"

text \<open>
  The first half of \<open>recordBB\<close>: the call id for the entry, and what happens to the
  function stack. \<open>~0\<close> converted to \<open>unsigned\<close> is the word of all ones.
\<close>

definition recordBB_callID :: "u32 \<Rightarrow> ptr \<Rightarrow> u32 \<Rightarrow> state \<Rightarrow> error + (state \<times> u32)" where
  "recordBB_callID id' fp lastBB s =
     (if lastBB \<noteq> 0 then
        (if FNStackIndex s > 0 then
           (if \<not> FNStackIndex s - 1 < maxFNStack then Inl (Fault s)
            else if fnAddress (FNStack s (FNStackIndex s - 1)) \<noteq> fp
            then Inr (s\<lparr>err := err s @ [FunctionIdMismatch id']\<rparr>, 0)
            else
              (let s1 = s\<lparr>FNStackIndex := FNStackIndex s - 1\<rparr>
               in Inr (s1, fnid (FNStack s1 (FNStackIndex s1)))))
         else Inr (s, NOT 0))
      else Inr (s, 0))"

definition recordBB :: "nat \<Rightarrow> u32 \<Rightarrow> ptr \<Rightarrow> u32 \<Rightarrow> state \<Rightarrow> error + state" where
  "recordBB sz id' fp lastBB s =
     (if checkForNonHandlerThread s then Inr s
      else
        (let s1 = (if id' \<ge> 190525 \<and> id' \<le> 190532
                   then s\<lparr>out := out s @ [AtBasicBlockEnd id']\<rparr> else s)
         in case recordBB_callID id' fp lastBB s1 of
              Inl e \<Rightarrow> Inl e
            | Inr (s2, callID) \<Rightarrow>
                (case addToEntryCache sz (newEntry BBType id' fp (ucast callID)) s2 of
                   Inl e \<Rightarrow> Inl e
                 | Inr s3 \<Rightarrow> Inr (s3\<lparr>BBStackIndex := BBStackIndex s3 - 1\<rparr>))))"

definition recordExtCallRet :: "u32 \<Rightarrow> ptr \<Rightarrow> state \<Rightarrow> error + state" where
  "recordExtCallRet callID fp s =
     (if checkForNonHandlerThread s then Inr s
      else if \<not> FNStackIndex s > 0 then Inl (Abort s)
      else if \<not> FNStackIndex s - 1 < maxFNStack then Inl (Fault s)
      else
        (case cstringAt (memory s) fp 0 of
           None \<Rightarrow> Inl (Fault s)
         | Some bytes \<Rightarrow>
             (let s1 = s\<lparr>out := out s @ [InsideRecordExtCallRet callID bytes
                                            (fnAddress (FNStack s (FNStackIndex s - 1)))]\<rparr>
              in if fnAddress (FNStack s1 (FNStackIndex s1 - 1)) \<noteq> fp
                 then Inr (s1\<lparr>err := err s1 @ [FunctionIdMismatch callID]\<rparr>)
                 else Inr (s1\<lparr>FNStackIndex := FNStackIndex s1 - 1\<rparr>))))"

definition recordLoad :: "nat \<Rightarrow> u32 \<Rightarrow> ptr \<Rightarrow> ptr \<Rightarrow> state \<Rightarrow> error + state" where
  "recordLoad sz id' p len s =
     (if checkForNonHandlerThread s then Inr s
      else addToEntryCache sz (newEntry LDType id' p len) s)"

definition recordStore :: "nat \<Rightarrow> u32 \<Rightarrow> ptr \<Rightarrow> ptr \<Rightarrow> state \<Rightarrow> error + state" where
  "recordStore sz id' p len s =
     (if checkForNonHandlerThread s then Inr s
      else addToEntryCache sz (newEntry STType id' p len) s)"

text \<open>
  The string hooks: the length is that of the string and its terminator;
  \<open>recordStrcatStore\<close> records the store from the terminator of \<open>p\<close> on.
\<close>

definition recordStrLoad :: "nat \<Rightarrow> u32 \<Rightarrow> ptr \<Rightarrow> state \<Rightarrow> error + state" where
  "recordStrLoad sz id' p s =
     (if checkForNonHandlerThread s then Inr s
      else
        (case strlen (memory s) p of
           None \<Rightarrow> Inl (Fault s)
         | Some n \<Rightarrow> addToEntryCache sz (newEntry LDType id' p (of_nat n + 1)) s))"

definition recordStrStore :: "nat \<Rightarrow> u32 \<Rightarrow> ptr \<Rightarrow> state \<Rightarrow> error + state" where
  "recordStrStore sz id' p s =
     (if checkForNonHandlerThread s then Inr s
      else
        (case strlen (memory s) p of
           None \<Rightarrow> Inl (Fault s)
         | Some n \<Rightarrow> addToEntryCache sz (newEntry STType id' p (of_nat n + 1)) s))"

definition recordStrcatStore :: "nat \<Rightarrow> u32 \<Rightarrow> ptr \<Rightarrow> ptr \<Rightarrow> state \<Rightarrow> error + state" where
  "recordStrcatStore sz id' p src s =
     (if checkForNonHandlerThread s then Inr s
      else
        (case strlen (memory s) p of
           None \<Rightarrow> Inl (Fault s)
         | Some n \<Rightarrow>
             (case strlen (memory s) src of
                None \<Rightarrow> Inl (Fault s)
              | Some m \<Rightarrow>
                  addToEntryCache sz (newEntry STType id' (p + of_nat n) (of_nat m + 1)) s)))"

definition recordCall :: "nat \<Rightarrow> u32 \<Rightarrow> ptr \<Rightarrow> state \<Rightarrow> error + state" where
  "recordCall sz id' fp s =
     (if checkForNonHandlerThread s then Inr s
      else
        (case addToEntryCache sz (newEntry CLType id' fp 0) s of
           Inl e \<Rightarrow> Inl e
         | Inr s1 \<Rightarrow>
             if FNStackIndex s1 = maxFNStack
             then Inr (s1\<lparr>err := err s1 @ [FNStackOverflowed]\<rparr>)
             else if \<not> FNStackIndex s1 < maxFNStack then Inl (Fault s1)
             else Inr (s1\<lparr>FNStack := (FNStack s1)
                            (FNStackIndex s1 := \<lparr>fnid = id', fnAddress = fp\<rparr>),
                          FNStackIndex := FNStackIndex s1 + 1\<rparr>)))"

definition recordExtCall :: "nat \<Rightarrow> u32 \<Rightarrow> ptr \<Rightarrow> state \<Rightarrow> error + state" where
  "recordExtCall sz id' fp s =
     (if checkForNonHandlerThread s then Inr s
      else addToEntryCache sz (newEntry CLType id' fp 0)
             (s\<lparr>out := out s @ [InsideRecordExtCall id' fp]\<rparr>))"

definition recordReturn :: "nat \<Rightarrow> u32 \<Rightarrow> ptr \<Rightarrow> state \<Rightarrow> error + state" where
  "recordReturn sz id' fp s =
     (if checkForNonHandlerThread s then Inr s
      else addToEntryCache sz (newEntry RTType id' fp 0) s)"

definition recordInvFailure :: "nat \<Rightarrow> u32 \<Rightarrow> state \<Rightarrow> error + state" where
  "recordInvFailure sz id' s =
     (if checkForNonHandlerThread s then Inr s
      else addToEntryCache sz (newEntry INVType id' 0 0) s)"

definition recordSelect :: "nat \<Rightarrow> u32 \<Rightarrow> 8 word \<Rightarrow> state \<Rightarrow> error + state" where
  "recordSelect sz id' flag s =
     (if checkForNonHandlerThread s then Inr s
      else addToEntryCache sz (newEntry PDType id' (ucast flag) 0) s)"

definition recordHandlerThreadID :: "string \<Rightarrow> state \<Rightarrow> state" where
  "recordHandlerThreadID name s =
     updateThreadID (s\<lparr>out := out s @ [InsideHandlingFunction name]\<rparr>)"

text \<open>
  A call of one hook, and a run of calls in program order; the run stops at the first
  call that does not return.
\<close>

datatype hook =
  StartBB u32 ptr
  | EndBB u32 ptr u32
  | ExtCallRet u32 ptr
  | Load u32 ptr ptr
  | Store u32 ptr ptr
  | StrLoad u32 ptr
  | StrStore u32 ptr
  | StrcatStore u32 ptr ptr
  | Call u32 ptr
  | ExtCall u32 ptr
  | Return u32 ptr
  | InvFailure u32
  | Select u32 "8 word"
  | HandlerThreadID string

fun runHook :: "nat \<Rightarrow> hook \<Rightarrow> state \<Rightarrow> error + state" where
  "runHook sz (StartBB i fp) s = recordStartBB sz i fp s"
| "runHook sz (EndBB i fp lastBB) s = recordBB sz i fp lastBB s"
| "runHook sz (ExtCallRet i fp) s = recordExtCallRet i fp s"
| "runHook sz (Load i p len) s = recordLoad sz i p len s"
| "runHook sz (Store i p len) s = recordStore sz i p len s"
| "runHook sz (StrLoad i p) s = recordStrLoad sz i p s"
| "runHook sz (StrStore i p) s = recordStrStore sz i p s"
| "runHook sz (StrcatStore i p src) s = recordStrcatStore sz i p src s"
| "runHook sz (Call i fp) s = recordCall sz i fp s"
| "runHook sz (ExtCall i fp) s = recordExtCall sz i fp s"
| "runHook sz (Return i fp) s = recordReturn sz i fp s"
| "runHook sz (InvFailure i) s = recordInvFailure sz i s"
| "runHook sz (Select i flag) s = recordSelect sz i flag s"
| "runHook sz (HandlerThreadID name) s = Inr (recordHandlerThreadID name s)"

fun runHooks :: "nat \<Rightarrow> hook list \<Rightarrow> state \<Rightarrow> error + state" where
  "runHooks sz [] s = Inr s"
| "runHooks sz (h # hs) s =
     (case runHook sz h s of Inl e \<Rightarrow> Inl e | Inr s' \<Rightarrow> runHooks sz hs s')"


section \<open>Invariant and observations\<close>

text \<open>
  What \<open>recordInit\<close> establishes and every later call relies on: the size of an entry
  divides the byte size of the window (\<open>recordInit\<close> aborts otherwise), the cursor is
  within the window, \<open>cache\<close> is the window of the file at \<open>fileOffset\<close>, and the
  position of the descriptor is past the end of that window.
\<close>

definition cacheInv :: "nat \<Rightarrow> state \<Rightarrow> bool" where
  "cacheInv sz s \<longleftrightarrow>
     entryCacheSizeinBytes mod sz = 0
     \<and> index (entryCache s) \<le> entryCacheSize sz
     \<and> cache (entryCache s) = Some (fileOffset (entryCache s))
     \<and> fileOffset (entryCache s) + int entryCacheSizeinBytes \<le> filePos s"

text \<open>
  \<open>nextSlot\<close> is the byte offset in the file at which the cursor stands, \<open>lastEntry\<close>
  what the file holds in the slot before it. \<open>readTrace sz n\<close> reads the first \<open>n\<close>
  slots of the file from its start, as a reader of the trace would.
\<close>

definition nextSlot :: "nat \<Rightarrow> state \<Rightarrow> int" where
  "nextSlot sz s = fileOffset (entryCache s) + int sz * uint (index (entryCache s))"

definition lastEntry :: "nat \<Rightarrow> state \<Rightarrow> Entry option" where
  "lastEntry sz s = traceFile s (nextSlot sz s - int sz)"


text \<open>
  A memory with the string \<open>hello\<close> at address 8192 and nothing readable elsewhere.
\<close>

definition helloMemory :: "ptr \<Rightarrow> 8 word option" where
  "helloMemory a =
     (if a = 8192 then Some 104 else if a = 8193 then Some 101
      else if a = 8194 then Some 108 else if a = 8195 then Some 108
      else if a = 8196 then Some 111 else if a = 8197 then Some 0 else None)"

text \<open>
  The state of a process that has run no function of the runtime yet: the variables hold
  the zeros of static storage, nothing is printed, and no mapping will fail.
\<close>

definition startState :: state where
  "startState =
     \<lparr>recordFD = 0, handlerThreadID = 0, countUpdateThreadID = 0,
      BBStackIndex = 0, BBStack = (\<lambda>i. \<lparr>bbid = 0, bbaddress = 0\<rparr>),
      FNStackIndex = 0, FNStack = (\<lambda>i. \<lparr>fnid = 0, fnAddress = 0\<rparr>),
      trace_index = 0,
      entryCache = \<lparr>index = 0, cache = None, fileOffset = 0, fd = 0\<rparr>,
      pthread_self = 1, memory = helloMemory, traceFile = Map.empty, appended = [],
      filePos = 0, fileSize = 0, mmapFails = [],
      atexitRegistered = False, handlersInstalled = False, out = [], err = []\<rparr>"

fun errorState :: "error \<Rightarrow> state" where
  "errorState (Abort s) = s"
| "errorState (Fault s) = s"
| "errorState (Exit status s) = s"

definition outcomeState :: "error + state \<Rightarrow> state" where
  "outcomeState r = (case r of Inl e \<Rightarrow> errorState e | Inr s \<Rightarrow> s)"

text \<open>The state in which \<open>recordInit\<close> leaves that process, for entries of 32 bytes.\<close>

definition initState :: state where
  "initState = outcomeState (recordInit 32 ''trace.bin'' 3 startState)"

text \<open>The state after one teardown of that process, and after a second one.\<close>

definition closedOnce :: state where
  "closedOnce = outcomeState (closeCacheFile 32 initState)"

definition closedTwice :: state where
  "closedTwice = outcomeState (closeCacheFile 32 closedOnce)"

section \<open>The entry cache appends in order\<close>

text \<open>
  The equation of the loop of \<open>closeCacheFile\<close> is unfolded by hand, one iteration at
  a time.
\<close>

declare closeCacheFile_loop.simps [simp del]

text \<open>
  Arithmetic of the window: the capacity is the quotient it is defined as (it fits
  32 bits), and as many entries as the capacity fill the window to its last byte.
\<close>

lemma sz_pos: "entryCacheSizeinBytes mod sz = 0 \<Longrightarrow> 0 < sz"
  by (cases "sz = 0") (simp_all add: entryCacheSizeinBytes_def)

lemma sz_le: "entryCacheSizeinBytes mod sz = 0 \<Longrightarrow> sz \<le> entryCacheSizeinBytes"
  by (metis dvd_imp_le mod_0_imp_dvd entryCacheSizeinBytes_def zero_less_numeral mult_pos_pos zero_less_mult_iff)

lemma unat_entryCacheSize: "unat (entryCacheSize sz) = entryCacheSizeinBytes div sz"
proof -
  have "entryCacheSizeinBytes div sz \<le> entryCacheSizeinBytes"
    by (rule div_le_dividend)
  also have "\<dots> < 2 ^ 32"
    by (simp add: entryCacheSizeinBytes_def)
  finally show ?thesis
    by (simp add: entryCacheSize_def unat_of_nat)
qed

lemma window_bytes:
  assumes "entryCacheSizeinBytes mod sz = 0"
  shows "int sz * uint (entryCacheSize sz) = int entryCacheSizeinBytes"
proof -
  have "sz * (entryCacheSizeinBytes div sz) = entryCacheSizeinBytes"
    using assms by (simp add: mod_0_imp_dvd)
  then have "int (sz * unat (entryCacheSize sz)) = int entryCacheSizeinBytes"
    by (simp add: unat_entryCacheSize)
  then show ?thesis
    by (simp only: uint_nat of_nat_mult)
qed

lemma entryCacheSize_pos:
  assumes "entryCacheSizeinBytes mod sz = 0"
  shows "0 < entryCacheSize sz"
proof -
  have "0 < entryCacheSizeinBytes div sz"
    using sz_pos [OF assms] sz_le [OF assms] by (simp add: div_greater_zero_iff)
  then show ?thesis
    by (simp add: word_less_nat_alt unat_entryCacheSize)
qed

lemma uint_succ_below:
  fixes i m :: u32
  assumes "i < m"
  shows "uint (i + 1) = uint i + 1"
proof -
  from assms have "uint i < uint m"
    by (simp add: word_less_def)
  moreover have "uint m < 2 ^ 32"
    using uint_lt2p [of m] by simp
  ultimately have "uint i + 1 < 2 ^ 32"
    by simp
  then show ?thesis
    by (simp add: uint_word_ariths)
qed

lemma addToEntryCache_keep:
  assumes "index (entryCache s) < entryCacheSize sz"
    and "cache (entryCache s) = Some b"
  shows "addToEntryCache sz e s =
           Inr (s\<lparr>appended := appended s @ [e],
                  traceFile := (traceFile s)(b + int sz * uint (index (entryCache s)) \<mapsto> e),
                  entryCache := (entryCache s)\<lparr>index := index (entryCache s) + 1\<rparr>,
                  trace_index := trace_index s + 1\<rparr>)"
proof -
  from assms(1) have "index (entryCache s) \<noteq> entryCacheSize sz"
    by simp
  with assms show ?thesis
    by (simp add: addToEntryCache_def)
qed

lemma flushCache_ok:
  assumes "fileOffset (entryCache s) + int entryCacheSizeinBytes \<notin> set (mmapFails s)"
  shows "flushCache sz s =
           Inr (s\<lparr>traceFile := zeroByteAt sz (filePos s + (int entryCacheSizeinBytes + 1)) (traceFile s),
                  fileSize := max (fileSize s) (filePos s + (int entryCacheSizeinBytes + 1) + 1),
                  filePos := filePos s + (int entryCacheSizeinBytes + 1),
                  entryCache := \<lparr>index = 0,
                    cache = Some (fileOffset (entryCache s) + int entryCacheSizeinBytes),
                    fileOffset = fileOffset (entryCache s) + int entryCacheSizeinBytes,
                    fd = fd (entryCache s)\<rparr>\<rparr>)"
  using assms by (simp add: flushCache_def mapWindow_def extendFile_def Let_def)

lemma addToEntryCache_rotate:
  assumes "index (entryCache s) = entryCacheSize sz"
    and "entryCacheSizeinBytes mod sz = 0"
    and "fileOffset (entryCache s) + int entryCacheSizeinBytes \<notin> set (mmapFails s)"
  shows "addToEntryCache sz e s =
           Inr (s\<lparr>appended := appended s @ [e],
                  traceFile := (zeroByteAt sz (filePos s + (int entryCacheSizeinBytes + 1)) (traceFile s))
                               (fileOffset (entryCache s) + int entryCacheSizeinBytes \<mapsto> e),
                  fileSize := max (fileSize s) (filePos s + (int entryCacheSizeinBytes + 1) + 1),
                  filePos := filePos s + (int entryCacheSizeinBytes + 1),
                  entryCache := \<lparr>index = 1,
                    cache = Some (fileOffset (entryCache s) + int entryCacheSizeinBytes),
                    fileOffset = fileOffset (entryCache s) + int entryCacheSizeinBytes,
                    fd = fd (entryCache s)\<rparr>,
                  trace_index := trace_index s + 1\<rparr>)"
proof -
  let ?s0 = "s\<lparr>appended := appended s @ [e]\<rparr>"
  from assms(3) have "fileOffset (entryCache ?s0) + int entryCacheSizeinBytes \<notin> set (mmapFails ?s0)"
    by simp
  from flushCache_ok [OF this, of sz] assms(1) entryCacheSize_pos [OF assms(2)]
  show ?thesis
    by (simp add: addToEntryCache_def flushEntryCache_def)
qed


lemma addToEntryCache_frame:
  assumes "addToEntryCache sz e s = Inr s'"
  shows "BBStackIndex s' = BBStackIndex s" "BBStack s' = BBStack s"
    "FNStackIndex s' = FNStackIndex s" "FNStack s' = FNStack s"
    "err s' = err s" "out s' = out s" "mmapFails s' = mmapFails s"
    "trace_index s' = trace_index s + 1"
    "atexitRegistered s' = atexitRegistered s" "handlersInstalled s' = handlersInstalled s"
    "appended s' = appended s @ [e]" "memory s' = memory s"
  using assms
  by (auto simp: addToEntryCache_def flushEntryCache_def flushCache_def mapWindow_def
      extendFile_def Let_def split: if_splits sum.splits option.splits)

lemma addToEntryCache_inv:
  assumes inv: "cacheInv sz s" and env: "mmapFails s = []"
  shows "\<exists>s'. addToEntryCache sz e s = Inr s' \<and> cacheInv sz s'
           \<and> nextSlot sz s' = nextSlot sz s + int sz
           \<and> traceFile s' (nextSlot sz s) = Some e
           \<and> (\<forall>off. off + int sz \<le> nextSlot sz s \<longrightarrow> traceFile s' off = traceFile s off)
           \<and> (\<forall>off. off \<noteq> nextSlot sz s \<longrightarrow> traceFile s off = None \<longrightarrow> traceFile s' off = None)"
proof (cases "index (entryCache s) = entryCacheSize sz")
  case True
  from inv have dv: "entryCacheSizeinBytes mod sz = 0"
    and pos: "fileOffset (entryCache s) + int entryCacheSizeinBytes \<le> filePos s"
    by (simp_all add: cacheInv_def)
  from env have ok: "fileOffset (entryCache s) + int entryCacheSizeinBytes \<notin> set (mmapFails s)"
    by simp
  note eq = addToEntryCache_rotate [OF True dv ok, of e]
  have nx: "nextSlot sz s = fileOffset (entryCache s) + int entryCacheSizeinBytes"
    using True window_bytes [OF dv] by (simp add: nextSlot_def)
  have one: "1 \<le> entryCacheSize sz"
    using entryCacheSize_pos [OF dv] by (simp add: word_le_nat_alt word_less_nat_alt)
  have szp: "0 < int sz"
    using sz_pos [OF dv] by simp
  show ?thesis
    unfolding eq nx using dv pos one szp
    by (auto simp: cacheInv_def nextSlot_def zeroByteAt_def)
next
  case False
  from inv have dv: "entryCacheSizeinBytes mod sz = 0"
    and le: "index (entryCache s) \<le> entryCacheSize sz"
    and ca: "cache (entryCache s) = Some (fileOffset (entryCache s))"
    and pos: "fileOffset (entryCache s) + int entryCacheSizeinBytes \<le> filePos s"
    by (simp_all add: cacheInv_def)
  from le False have lt: "index (entryCache s) < entryCacheSize sz"
    by simp
  note eq = addToEntryCache_keep [OF lt ca, of e]
  have szp: "0 < int sz"
    using sz_pos [OF dv] by simp
  show ?thesis
    unfolding eq using dv pos ca szp inc_le [OF lt] uint_succ_below [OF lt]
    by (auto simp: cacheInv_def nextSlot_def algebra_simps)
qed



lemma recordInit_inv:
  assumes "recordInit sz name FD s0 = Inr s"
  shows "cacheInv sz s" "nextSlot sz s = 0" "traceFile s = Map.empty"
    "mmapFails s = mmapFails s0" "BBStackIndex s = BBStackIndex s0"
    "FNStackIndex s = FNStackIndex s0" "index (entryCache s) = 0"
  using assms
  by (auto simp: recordInit_def openFD_def mapWindow_def extendFile_def updateThreadID_def
      Let_def cacheInv_def nextSlot_def zeroByteAt_def fun_eq_iff
      split: if_splits sum.splits)

lemma recordInit_startState:
  "entryCacheSizeinBytes mod sz = 0 \<Longrightarrow> \<exists>s. recordInit sz name 3 startState = Inr s"
  by (simp add: recordInit_def openFD_def mapWindow_def extendFile_def Let_def startState_def)




section \<open>One call of the cache\<close>

text \<open>
  The stacks and the output streams are no part of the invariant nor of what the file
  holds last.
\<close>

lemma lastEntry_simps [simp]:
  "lastEntry sz (s\<lparr>BBStackIndex := b\<rparr>) = lastEntry sz s"
  "lastEntry sz (s\<lparr>FNStackIndex := f\<rparr>) = lastEntry sz s"
  "lastEntry sz (s\<lparr>FNStack := g\<rparr>) = lastEntry sz s"
  "lastEntry sz (s\<lparr>err := e\<rparr>) = lastEntry sz s"
  "lastEntry sz (s\<lparr>out := e\<rparr>) = lastEntry sz s"
  by (simp_all add: lastEntry_def nextSlot_def)

lemma cacheInv_simps [simp]:
  "cacheInv sz (s\<lparr>BBStackIndex := b\<rparr>) = cacheInv sz s"
  "cacheInv sz (s\<lparr>BBStack := bs\<rparr>) = cacheInv sz s"
  "cacheInv sz (s\<lparr>FNStackIndex := f\<rparr>) = cacheInv sz s"
  "cacheInv sz (s\<lparr>FNStack := g\<rparr>) = cacheInv sz s"
  "cacheInv sz (s\<lparr>err := e\<rparr>) = cacheInv sz s"
  "cacheInv sz (s\<lparr>out := e\<rparr>) = cacheInv sz s"
  by (simp_all add: cacheInv_def)

lemma addToEntryCache_appends:
  assumes "cacheInv sz s" and "mmapFails s = []"
  shows "\<exists>s'. addToEntryCache sz e s = Inr s' \<and> cacheInv sz s' \<and> mmapFails s' = []
           \<and> lastEntry sz s' = Some e \<and> trace_index s' = trace_index s + 1
           \<and> BBStackIndex s' = BBStackIndex s \<and> BBStack s' = BBStack s
           \<and> FNStackIndex s' = FNStackIndex s \<and> FNStack s' = FNStack s
           \<and> err s' = err s \<and> out s' = out s"
proof -
  from addToEntryCache_inv [OF assms, of e]
  obtain s' where add: "addToEntryCache sz e s = Inr s'"
    and inv: "cacheInv sz s'"
    and nx: "nextSlot sz s' = nextSlot sz s + int sz"
    and here: "traceFile s' (nextSlot sz s) = Some e"
    by blast
  from nx here have "lastEntry sz s' = Some e"
    by (simp add: lastEntry_def)
  with add inv addToEntryCache_frame [OF add] assms(2) show ?thesis
    by simp
qed

lemma initState_eq: "recordInit 32 ''trace.bin'' 3 startState = Inr initState"
proof -
  have "entryCacheSizeinBytes mod 32 = 0"
    by (simp add: entryCacheSizeinBytes_def)
  from recordInit_startState [OF this]
  obtain s where "recordInit 32 ''trace.bin'' 3 startState = Inr s"
    by blast
  then show ?thesis
    by (simp add: initState_def outcomeState_def)
qed

lemma initState_facts:
  "cacheInv 32 initState" "mmapFails initState = []" "BBStackIndex initState = 0"
  "FNStackIndex initState = 0" "index (entryCache initState) = 0"
  "nextSlot 32 initState = 0" "traceFile initState = Map.empty"
  using recordInit_inv [OF initState_eq] by (simp_all add: startState_def)

lemmas run_defs = recordInit_def openFD_def mapWindow_def extendFile_def updateThreadID_def
  startState_def outcomeState_def Let_def zeroByteAt_def closeCacheFile_def
  closeCacheFile_loop.simps addToEntryCache_def flushEntryCache_def flushCache_def
  entryCacheSize_def entryCacheSizeinBytes_def newEntry_def maxBBStack_def initState_def
  recordStartBB_def checkForNonHandlerThread_def

lemma nextSlot_le_window:
  assumes "cacheInv sz s"
  shows "nextSlot sz s \<le> fileOffset (entryCache s) + int entryCacheSizeinBytes"
proof -
  from assms have dv: "entryCacheSizeinBytes mod sz = 0"
    and le: "index (entryCache s) \<le> entryCacheSize sz"
    by (simp_all add: cacheInv_def)
  from le have "uint (index (entryCache s)) \<le> uint (entryCacheSize sz)"
    by (simp add: word_le_def)
  then have "int sz * uint (index (entryCache s)) \<le> int sz * uint (entryCacheSize sz)"
    by (rule mult_left_mono) simp
  with window_bytes [OF dv] show ?thesis
    by (simp add: nextSlot_def)
qed

lemma flushEntryCache_inv:
  assumes "cacheInv sz s" and "mmapFails s = []"
  shows "\<exists>s'. flushEntryCache sz s = Inr s' \<and> cacheInv sz s' \<and> mmapFails s' = []
           \<and> index (entryCache s') = 0
           \<and> fileOffset (entryCache s') = fileOffset (entryCache s) + int entryCacheSizeinBytes
           \<and> (\<forall>off. off + int sz \<le> fileOffset (entryCache s') \<longrightarrow> traceFile s' off = traceFile s off)
           \<and> trace_index s' = trace_index s \<and> BBStackIndex s' = BBStackIndex s
           \<and> FNStackIndex s' = FNStackIndex s \<and> FNStack s' = FNStack s
           \<and> out s' = out s \<and> err s' = err s"
proof -
  from assms(2) have ok: "fileOffset (entryCache s) + int entryCacheSizeinBytes \<notin> set (mmapFails s)"
    by simp
  from assms(1) have pos: "fileOffset (entryCache s) + int entryCacheSizeinBytes \<le> filePos s"
    and dv: "entryCacheSizeinBytes mod sz = 0"
    by (simp_all add: cacheInv_def)
  show ?thesis
    unfolding flushEntryCache_def flushCache_ok [OF ok]
    using assms pos dv by (auto simp: cacheInv_def zeroByteAt_def)
qed

lemma flushCache_result:
  assumes "flushCache sz s = Inr s'"
  shows "index (entryCache s') = 0"
    and "fileOffset (entryCache s') = fileOffset (entryCache s) + int entryCacheSizeinBytes"
    and "cache (entryCache s') = Some (fileOffset (entryCache s'))"
    and "trace_index s' = trace_index s"
  using assms
  by (auto simp: flushCache_def mapWindow_def extendFile_def Let_def split: if_splits sum.splits)

lemma word_one_le:
  fixes m :: u32
  assumes "0 < m"
  shows "1 \<le> m"
  using assms by (simp add: word_le_nat_alt word_less_nat_alt)

lemma addToEntryCache_cursor:
  assumes le: "index (entryCache s) \<le> entryCacheSize sz"
    and add: "addToEntryCache sz e s = Inr s'"
  shows "index (entryCache s') \<le> entryCacheSize sz \<and> trace_index s' = trace_index s + 1
    \<and> (if index (entryCache s) = entryCacheSize sz
        then index (entryCache s') = 1
          \<and> fileOffset (entryCache s') = fileOffset (entryCache s) + int entryCacheSizeinBytes
          \<and> cache (entryCache s') = Some (fileOffset (entryCache s'))
          \<and> traceFile s' (fileOffset (entryCache s')) = Some e
        else index (entryCache s') = index (entryCache s) + 1
          \<and> fileOffset (entryCache s') = fileOffset (entryCache s)
          \<and> cache (entryCache s') = cache (entryCache s)
          \<and> (\<exists>b. cache (entryCache s) = Some b
                \<and> traceFile s' (b + int sz * uint (index (entryCache s))) = Some e))"
proof (cases "index (entryCache s) = entryCacheSize sz")
  case True
  let ?s0 = "s\<lparr>appended := appended s @ [e]\<rparr>"
  from True add obtain s1 where fl: "flushCache sz ?s0 = Inr s1"
    by (auto simp: addToEntryCache_def flushEntryCache_def split: sum.splits)
  note r = flushCache_result [OF fl, simplified]
  from add True fl r have lt: "0 < entryCacheSize sz"
    by (auto simp: addToEntryCache_def flushEntryCache_def split: if_splits)
  from add True fl r lt have "s' = s1\<lparr>traceFile := (traceFile s1)(fileOffset (entryCache s1) \<mapsto> e),
        entryCache := (entryCache s1)\<lparr>index := 1\<rparr>, trace_index := trace_index s1 + 1\<rparr>"
    by (simp add: addToEntryCache_def flushEntryCache_def)
  with True r word_one_le [OF lt] show ?thesis
    by simp
next
  case False
  with le have lt: "index (entryCache s) < entryCacheSize sz"
    by simp
  from add False obtain b where ca: "cache (entryCache s) = Some b"
    by (auto simp: addToEntryCache_def split: option.splits)
  from add addToEntryCache_keep [OF lt ca, of e]
  have "s' = s\<lparr>appended := appended s @ [e],
        traceFile := (traceFile s)(b + int sz * uint (index (entryCache s)) \<mapsto> e),
        entryCache := (entryCache s)\<lparr>index := index (entryCache s) + 1\<rparr>,
        trace_index := trace_index s + 1\<rparr>"
    by simp
  with False ca inc_le [OF lt] show ?thesis
    by simp
qed

lemma recordBB_callID_cache:
  assumes "recordBB_callID i fp lastBB s = Inr (s2, c)"
  shows "entryCache s2 = entryCache s"
  using assms by (auto simp: recordBB_callID_def Let_def split: if_splits)

lemma runHook_cursor:
  assumes le: "index (entryCache s) \<le> entryCacheSize sz"
    and run: "runHook sz h s = Inr s'"
  shows "index (entryCache s') \<le> entryCacheSize sz"
proof (cases h)
  case (StartBB i fp)
  with run have "entryCache s' = entryCache s"
    by (auto simp: recordStartBB_def checkForNonHandlerThread_def Let_def
        split: if_splits sum.splits)
  with le show ?thesis by simp
next
  case (EndBB i fp lastBB)
  let ?s1 = "if i \<ge> 190525 \<and> i \<le> 190532 then s\<lparr>out := out s @ [AtBasicBlockEnd i]\<rparr> else s"
  from run EndBB obtain s2 c s3
    where cid: "recordBB_callID i fp lastBB ?s1 = Inr (s2, c)"
      and add: "addToEntryCache sz (newEntry BBType i fp (ucast c)) s2 = Inr s3"
      and s': "s' = s3\<lparr>BBStackIndex := BBStackIndex s3 - 1\<rparr>"
    by (auto simp: recordBB_def checkForNonHandlerThread_def Let_def split: sum.splits)
  from recordBB_callID_cache [OF cid] le have "index (entryCache s2) \<le> entryCacheSize sz"
    by simp
  from addToEntryCache_cursor [OF this add] s' show ?thesis
    by simp
next
  case (ExtCallRet i fp)
  with run have "entryCache s' = entryCache s"
    by (auto simp: recordExtCallRet_def checkForNonHandlerThread_def Let_def
        split: if_splits option.splits)
  with le show ?thesis by simp
next
  case (StrLoad i p)
  with run le show ?thesis
    by (auto simp: recordStrLoad_def checkForNonHandlerThread_def split: option.splits
        dest: addToEntryCache_cursor)
next
  case (StrStore i p)
  with run le show ?thesis
    by (auto simp: recordStrStore_def checkForNonHandlerThread_def split: option.splits
        dest: addToEntryCache_cursor)
next
  case (StrcatStore i p src)
  with run le show ?thesis
    by (auto simp: recordStrcatStore_def checkForNonHandlerThread_def split: option.splits
        dest: addToEntryCache_cursor)
next
  case (Load i p len)
  with run le show ?thesis
    by (auto simp: recordLoad_def checkForNonHandlerThread_def dest: addToEntryCache_cursor)
next
  case (Store i p len)
  with run le show ?thesis
    by (auto simp: recordStore_def checkForNonHandlerThread_def dest: addToEntryCache_cursor)
next
  case (Call i fp)
  from run Call obtain s1 where add: "addToEntryCache sz (newEntry CLType i fp 0) s = Inr s1"
    and "entryCache s' = entryCache s1"
    by (auto simp: recordCall_def checkForNonHandlerThread_def split: sum.splits if_splits)
  with addToEntryCache_cursor [OF le add] show ?thesis
    by simp
next
  case (ExtCall i fp)
  let ?s0 = "s\<lparr>out := out s @ [InsideRecordExtCall i fp]\<rparr>"
  from le have le0: "index (entryCache ?s0) \<le> entryCacheSize sz"
    by simp
  from run ExtCall have "addToEntryCache sz (newEntry CLType i fp 0) ?s0 = Inr s'"
    by (simp add: recordExtCall_def checkForNonHandlerThread_def)
  from addToEntryCache_cursor [OF le0 this] show ?thesis
    by simp
next
  case (Return i fp)
  with run le show ?thesis
    by (auto simp: recordReturn_def checkForNonHandlerThread_def dest: addToEntryCache_cursor)
next
  case (InvFailure i)
  with run le show ?thesis
    by (auto simp: recordInvFailure_def checkForNonHandlerThread_def dest: addToEntryCache_cursor)
next
  case (Select i flag)
  with run le show ?thesis
    by (auto simp: recordSelect_def checkForNonHandlerThread_def dest: addToEntryCache_cursor)
next
  case (HandlerThreadID name)
  with run have "entryCache s' = entryCache s"
    by (auto simp: recordHandlerThreadID_def updateThreadID_def Let_def)
  with le show ?thesis by simp
qed

lemma closeCacheFile_cursor:
  assumes "closeCacheFile sz s = Inr s'"
  shows "index (entryCache s') = 0"
  using assms
  by (auto simp: closeCacheFile_def flushEntryCache_def split: sum.splits
      dest: flushCache_result(1))

lemma openFD_cursor:
  assumes "openFD sz FD s = Inr s'"
  shows "index (entryCache s') = 0" and "fileOffset (entryCache s') = 0"
    and "cache (entryCache s') = Some 0"
  using assms
  by (auto simp: openFD_def mapWindow_def extendFile_def Let_def split: if_splits)

section \<open>Block ends and calls\<close>

text \<open>
  Under the invariant, and while the function stack index is within the stack,
  \<open>recordBB\<close> and \<open>recordCall\<close> return; the lemmas say what they leave behind.
\<close>

lemma sentinel_ucast: "(ucast (NOT 0 :: u32) :: ptr) = 4294967295"
proof -
  have "(ucast (- 1 :: u32) :: ptr) = mask 32"
    by (simp add: unsigned_minus_1_eq_mask)
  also have "\<dots> = 4294967295"
    by (simp add: mask_eq_exp_minus_1)
  finally show ?thesis
    by simp
qed

lemma word_pred_less:
  fixes x m :: u32
  assumes "0 < x" and "x \<le> m"
  shows "x - 1 < m"
proof -
  from assms(1) have "x \<noteq> 0"
    by auto
  then have "unat (x - 1) < unat x"
    by (rule measure_unat)
  with assms(2) show ?thesis
    by (simp add: word_less_nat_alt word_le_nat_alt)
qed

lemma word_pred_le:
  fixes x m :: u32
  assumes "0 < x" and "x \<le> m"
  shows "x - 1 \<le> m"
  using word_pred_less [OF assms] by simp

lemma unat_succ_below:
  fixes i m :: u32
  assumes "i < m"
  shows "unat (i + 1) = Suc (unat i)"
proof -
  have "int (unat (i + 1)) = int (unat i) + 1"
    using uint_succ_below [OF assms] by (simp only: uint_nat)
  then show ?thesis
    by linarith
qed

lemma uint_pred:
  fixes x :: u32
  assumes "x \<noteq> 0"
  shows "uint (x - 1) = uint x - 1"
proof -
  from assms have "1 \<le> x"
    by (simp add: word_le_nat_alt unat_gt_0 Suc_leI)
  then have "uint (1 :: u32) \<le> uint x"
    by (simp add: word_le_def)
  then have "uint (x - 1) = uint x - uint (1 :: u32)"
    by (simp only: uint_sub_lem)
  then show ?thesis
    by simp
qed

lemma recordBB_callID_ok:
  assumes "FNStackIndex s \<le> maxFNStack"
  shows "\<exists>s2 c. recordBB_callID i fp lastBB s = Inr (s2, c)
           \<and> cacheInv sz s2 = cacheInv sz s \<and> mmapFails s2 = mmapFails s
           \<and> BBStackIndex s2 = BBStackIndex s \<and> trace_index s2 = trace_index s
           \<and> FNStackIndex s2 \<le> maxFNStack"
proof (cases "lastBB \<noteq> 0 \<and> 0 < FNStackIndex s")
  case True
  then have "FNStackIndex s - 1 < maxFNStack" and "FNStackIndex s - 1 \<le> maxFNStack"
    using assms by (simp_all add: word_pred_less word_pred_le)
  with True assms show ?thesis
    by (simp add: recordBB_callID_def Let_def cacheInv_def)
next
  case False
  with assms show ?thesis
    by (auto simp: recordBB_callID_def)
qed

lemma recordBB_ok:
  assumes "cacheInv sz s" and "mmapFails s = []" and "FNStackIndex s \<le> maxFNStack"
  shows "\<exists>s'. recordBB sz i fp lastBB s = Inr s' \<and> cacheInv sz s' \<and> mmapFails s' = []
           \<and> BBStackIndex s' = BBStackIndex s - 1 \<and> trace_index s' = trace_index s + 1
           \<and> FNStackIndex s' \<le> maxFNStack
           \<and> (\<exists>c. lastEntry sz s' = Some (newEntry BBType i fp c))"
proof -
  let ?s1 = "if i \<ge> 190525 \<and> i \<le> 190532 then s\<lparr>out := out s @ [AtBasicBlockEnd i]\<rparr> else s"
  have fn1: "FNStackIndex ?s1 \<le> maxFNStack"
    using assms(3) by simp
  from recordBB_callID_ok [OF fn1, of i fp lastBB sz]
  obtain s2 c where cid: "recordBB_callID i fp lastBB ?s1 = Inr (s2, c)"
    and inv2: "cacheInv sz s2 = cacheInv sz ?s1" and env2: "mmapFails s2 = mmapFails ?s1"
    and bb2: "BBStackIndex s2 = BBStackIndex ?s1" and ti2: "trace_index s2 = trace_index ?s1"
    and fn2: "FNStackIndex s2 \<le> maxFNStack"
    by blast
  have inv2': "cacheInv sz s2" and env2': "mmapFails s2 = []"
    using inv2 env2 assms(1,2) by simp_all
  from addToEntryCache_appends [OF inv2' env2', of "newEntry BBType i fp (ucast c)"]
  obtain s3 where add: "addToEntryCache sz (newEntry BBType i fp (ucast c)) s2 = Inr s3"
    and inv3: "cacheInv sz s3" and env3: "mmapFails s3 = []"
    and ti3: "trace_index s3 = trace_index s2 + 1"
    and bb3: "BBStackIndex s3 = BBStackIndex s2"
    and fn3: "FNStackIndex s3 = FNStackIndex s2"
    and last3: "lastEntry sz s3 = Some (newEntry BBType i fp (ucast c))"
    by blast
  have run: "recordBB sz i fp lastBB s = Inr (s3\<lparr>BBStackIndex := BBStackIndex s3 - 1\<rparr>)"
    using cid add by (simp add: recordBB_def checkForNonHandlerThread_def Let_def)
  have ti: "trace_index s3 = trace_index s + 1" and bb: "BBStackIndex s3 = BBStackIndex s"
    using ti3 bb3 ti2 bb2 by simp_all
  have fn: "FNStackIndex s3 \<le> maxFNStack"
    using fn3 fn2 by simp
  have "\<exists>ca. lastEntry sz (s3\<lparr>BBStackIndex := BBStackIndex s3 - 1\<rparr>) = Some (newEntry BBType i fp ca)"
    using last3 by (intro exI [of _ "ucast c"]) simp
  with run inv3 env3 ti bb fn show ?thesis
    by simp
qed

lemma recordCall_ok:
  assumes "cacheInv sz s" and "mmapFails s = []" and "FNStackIndex s \<le> maxFNStack"
  shows "\<exists>s'. recordCall sz i fp s = Inr s' \<and> cacheInv sz s' \<and> mmapFails s' = []
           \<and> lastEntry sz s' = Some (newEntry CLType i fp 0)
           \<and> trace_index s' = trace_index s + 1
           \<and> BBStackIndex s' = BBStackIndex s
           \<and> (if FNStackIndex s = maxFNStack
                then FNStackIndex s' = maxFNStack \<and> FNStack s' = FNStack s
                  \<and> err s' = err s @ [FNStackOverflowed]
                else FNStackIndex s' = FNStackIndex s + 1
                  \<and> FNStack s' = (FNStack s)(FNStackIndex s := \<lparr>fnid = i, fnAddress = fp\<rparr>)
                  \<and> err s' = err s)"
proof -
  from addToEntryCache_appends [OF assms(1,2), of "newEntry CLType i fp 0"]
  obtain s1 where add: "addToEntryCache sz (newEntry CLType i fp 0) s = Inr s1"
    and inv: "cacheInv sz s1" and env: "mmapFails s1 = []"
    and last: "lastEntry sz s1 = Some (newEntry CLType i fp 0)"
    and ti: "trace_index s1 = trace_index s + 1"
    and bb: "BBStackIndex s1 = BBStackIndex s"
    and fi: "FNStackIndex s1 = FNStackIndex s" and fs: "FNStack s1 = FNStack s"
    and er: "err s1 = err s"
    by blast
  show ?thesis
  proof (cases "FNStackIndex s = maxFNStack")
    case True
    with add fi have "recordCall sz i fp s = Inr (s1\<lparr>err := err s1 @ [FNStackOverflowed]\<rparr>)"
      by (simp add: recordCall_def checkForNonHandlerThread_def)
    with True inv env last ti bb fi fs er show ?thesis
      by simp
  next
    case False
    with assms(3) have "FNStackIndex s < maxFNStack"
      by simp
    with False add fi have "recordCall sz i fp s =
        Inr (s1\<lparr>FNStack := (FNStack s1)(FNStackIndex s1 := \<lparr>fnid = i, fnAddress = fp\<rparr>),
                FNStackIndex := FNStackIndex s1 + 1\<rparr>)"
      by (simp add: recordCall_def checkForNonHandlerThread_def)
    with False inv env last ti bb fi fs er show ?thesis
      by simp
  qed
qed

lemma recordCalls_fill:
  assumes "cacheInv sz s" and "mmapFails s = []"
    and "unat (FNStackIndex s) + n \<le> 4096"
  shows "\<exists>s'. runHooks sz (replicate n (Call i fp)) s = Inr s' \<and> cacheInv sz s'
           \<and> mmapFails s' = [] \<and> unat (FNStackIndex s') = unat (FNStackIndex s) + n"
  using assms
proof (induction n arbitrary: s)
  case 0
  then show ?case by simp
next
  case (Suc n)
  from Suc.prems(3) have lt: "FNStackIndex s < maxFNStack"
    by (simp add: word_less_nat_alt maxFNStack_def)
  then have le: "FNStackIndex s \<le> maxFNStack" and ne: "FNStackIndex s \<noteq> maxFNStack"
    by simp_all
  from recordCall_ok [OF Suc.prems(1,2) le, of i fp] ne
  obtain s1 where call: "recordCall sz i fp s = Inr s1"
    and inv: "cacheInv sz s1" and env: "mmapFails s1 = []"
    and fi: "FNStackIndex s1 = FNStackIndex s + 1"
    by auto
  from fi have un: "unat (FNStackIndex s1) = Suc (unat (FNStackIndex s))"
    by (simp add: unat_succ_below [OF lt])
  with Suc.prems(3) have "unat (FNStackIndex s1) + n \<le> 4096"
    by simp
  from Suc.IH [OF inv env this]
  obtain s' where "runHooks sz (replicate n (Call i fp)) s1 = Inr s'"
    and "cacheInv sz s'" and "mmapFails s' = []"
    and "unat (FNStackIndex s') = unat (FNStackIndex s1) + n"
    by blast
  with call un show ?case
    by simp
qed

lemma recordLoad_ok:
  assumes "cacheInv sz s" and "mmapFails s = []"
  shows "\<exists>s'. recordLoad sz i p len s = Inr s' \<and> cacheInv sz s' \<and> mmapFails s' = []
           \<and> lastEntry sz s' = Some (newEntry LDType i p len)
           \<and> trace_index s' = trace_index s + 1"
  using addToEntryCache_appends [OF assms, of "newEntry LDType i p len"]
  by (auto simp: recordLoad_def checkForNonHandlerThread_def)

section \<open>Teardown returns\<close>

text \<open>
  The loop of \<open>closeCacheFile\<close> appends one entry for each frame of the block stack,
  by induction on its index; the end entry follows them, and the last flush moves the
  window past all of them.
\<close>

lemma closeCacheFile_loop_ok:
  assumes "cacheInv sz s" and "mmapFails s = []" and "BBStackIndex s \<le> maxBBStack"
  shows "\<exists>s'. closeCacheFile_loop sz s = Inr s' \<and> cacheInv sz s' \<and> mmapFails s' = []
           \<and> BBStackIndex s' = 0
           \<and> nextSlot sz s' = nextSlot sz s + int sz * uint (BBStackIndex s)
           \<and> (\<forall>off. off + int sz \<le> nextSlot sz s \<longrightarrow> traceFile s' off = traceFile s off)
           \<and> trace_index s' = trace_index s + BBStackIndex s
           \<and> FNStackIndex s' = FNStackIndex s \<and> FNStack s' = FNStack s
           \<and> out s' = out s \<and> err s' = err s"
  using assms
proof (induction n \<equiv> "unat (BBStackIndex s)" arbitrary: s)
  case 0
  then have z: "BBStackIndex s = 0"
    by (simp add: unat_eq_0)
  then have "closeCacheFile_loop sz s = Inr s"
    by (simp add: closeCacheFile_loop.simps [of sz s])
  with 0 z show ?case
    by simp
next
  case (Suc n)
  from Suc.hyps(2) have nz: "BBStackIndex s \<noteq> 0"
    by auto
  then have pos: "0 < BBStackIndex s"
    by (simp add: word_gt_0)
  let ?s1 = "s\<lparr>BBStackIndex := BBStackIndex s - 1\<rparr>"
  let ?e = "newEntry BBType (bbid (BBStack ?s1 (BBStackIndex ?s1)))
              (bbaddress (BBStack ?s1 (BBStackIndex ?s1))) 0"
  have inb: "BBStackIndex ?s1 < maxBBStack"
    using word_pred_less [OF pos Suc.prems(3)] by simp
  have inv1: "cacheInv sz ?s1" and env1: "mmapFails ?s1 = []"
    using Suc.prems(1,2) by simp_all
  from addToEntryCache_inv [OF inv1 env1, of ?e]
  obtain s2 where add: "addToEntryCache sz ?e ?s1 = Inr s2"
    and inv2: "cacheInv sz s2"
    and nx2: "nextSlot sz s2 = nextSlot sz ?s1 + int sz"
    and below2: "\<And>off. off + int sz \<le> nextSlot sz ?s1 \<Longrightarrow> traceFile s2 off = traceFile ?s1 off"
    by blast
  note fr = addToEntryCache_frame [OF add]
  from fr(7) env1 have env2: "mmapFails s2 = []"
    by simp
  from fr(1) have bb2: "BBStackIndex s2 = BBStackIndex s - 1"
    by simp
  have un2: "n = unat (BBStackIndex s2)"
    using Suc.hyps(2) nz by (simp add: bb2 unat_minus_one)
  have le2: "BBStackIndex s2 \<le> maxBBStack"
    using word_pred_le [OF pos Suc.prems(3)] by (simp add: bb2)
  from Suc.hyps(1) [OF un2 inv2 env2 le2]
  obtain s' where loop: "closeCacheFile_loop sz s2 = Inr s'"
    and inv': "cacheInv sz s'" and env': "mmapFails s' = []"
    and bb': "BBStackIndex s' = 0"
    and nx': "nextSlot sz s' = nextSlot sz s2 + int sz * uint (BBStackIndex s2)"
    and below': "\<And>off. off + int sz \<le> nextSlot sz s2 \<Longrightarrow> traceFile s' off = traceFile s2 off"
    and ti': "trace_index s' = trace_index s2 + BBStackIndex s2"
    and rest: "FNStackIndex s' = FNStackIndex s2" "FNStack s' = FNStack s2"
      "out s' = out s2" "err s' = err s2"
    by blast
  have run: "closeCacheFile_loop sz s = Inr s'"
    using pos inb add loop by (simp add: closeCacheFile_loop.simps [of sz s] Let_def)
  have nx1: "nextSlot sz ?s1 = nextSlot sz s"
    by (simp add: nextSlot_def)
  have nx: "nextSlot sz s' = nextSlot sz s + int sz * uint (BBStackIndex s)"
    using nx' nx2 nx1 bb2 uint_pred [OF nz] by (simp add: algebra_simps)
  have keep: "traceFile s' off = traceFile s off" if "off + int sz \<le> nextSlot sz s" for off
  proof -
    from that nx1 have a: "off + int sz \<le> nextSlot sz ?s1"
      by simp
    with nx2 have "off + int sz \<le> nextSlot sz s2"
      by simp
    from below' [OF this] below2 [OF a] show ?thesis
      by simp
  qed
  have ti: "trace_index s' = trace_index s + BBStackIndex s"
    using ti' fr(8) bb2 by simp
  from run inv' env' bb' nx keep ti rest fr show ?case
    by simp
qed

lemma closeCacheFile_ok:
  assumes "cacheInv sz s" and "mmapFails s = []" and "BBStackIndex s \<le> maxBBStack"
  shows "\<exists>s'. closeCacheFile sz s = Inr s' \<and> cacheInv sz s' \<and> mmapFails s' = []
           \<and> BBStackIndex s' = 0 \<and> index (entryCache s') = 0
           \<and> traceFile s' (nextSlot sz s + int sz * uint (BBStackIndex s)) = Some (newEntry ENType 0 0 0)
           \<and> nextSlot sz s + int sz * uint (BBStackIndex s) + int sz \<le> fileOffset (entryCache s')
           \<and> (\<forall>off. off + int sz \<le> nextSlot sz s \<longrightarrow> traceFile s' off = traceFile s off)
           \<and> trace_index s' = trace_index s + BBStackIndex s + 1
           \<and> FNStackIndex s' = FNStackIndex s \<and> FNStack s' = FNStack s
           \<and> out s' = out s @ [WritingCacheData] \<and> err s' = err s"
proof -
  let ?s0 = "s\<lparr>out := out s @ [WritingCacheData]\<rparr>"
  have inv0: "cacheInv sz ?s0" and env0: "mmapFails ?s0 = []"
    and bb0: "BBStackIndex ?s0 \<le> maxBBStack"
    using assms by simp_all
  have nx0: "nextSlot sz ?s0 = nextSlot sz s"
    by (simp add: nextSlot_def)
  from closeCacheFile_loop_ok [OF inv0 env0 bb0]
  obtain s1 where loop: "closeCacheFile_loop sz ?s0 = Inr s1"
    and inv1: "cacheInv sz s1" and env1: "mmapFails s1 = []"
    and bb1: "BBStackIndex s1 = 0"
    and nx1: "nextSlot sz s1 = nextSlot sz s + int sz * uint (BBStackIndex s)"
    and below1: "\<And>off. off + int sz \<le> nextSlot sz s \<Longrightarrow> traceFile s1 off = traceFile s off"
    and ti1: "trace_index s1 = trace_index s + BBStackIndex s"
    and rest1: "FNStackIndex s1 = FNStackIndex s" "FNStack s1 = FNStack s"
      "out s1 = out s @ [WritingCacheData]" "err s1 = err s"
    by (auto simp: nx0)
  from addToEntryCache_inv [OF inv1 env1, of "newEntry ENType 0 0 0"]
  obtain s2 where add: "addToEntryCache sz (newEntry ENType 0 0 0) s1 = Inr s2"
    and inv2: "cacheInv sz s2"
    and nx2: "nextSlot sz s2 = nextSlot sz s1 + int sz"
    and here2: "traceFile s2 (nextSlot sz s1) = Some (newEntry ENType 0 0 0)"
    and below2: "\<And>off. off + int sz \<le> nextSlot sz s1 \<Longrightarrow> traceFile s2 off = traceFile s1 off"
    by blast
  note fr = addToEntryCache_frame [OF add]
  from fr(7) env1 have env2: "mmapFails s2 = []"
    by simp
  from flushEntryCache_inv [OF inv2 env2]
  obtain s3 where fl: "flushEntryCache sz s2 = Inr s3"
    and inv3: "cacheInv sz s3" and env3: "mmapFails s3 = []"
    and ix3: "index (entryCache s3) = 0"
    and fo3: "fileOffset (entryCache s3) = fileOffset (entryCache s2) + int entryCacheSizeinBytes"
    and below3: "\<And>off. off + int sz \<le> fileOffset (entryCache s3) \<Longrightarrow> traceFile s3 off = traceFile s2 off"
    and rest3: "trace_index s3 = trace_index s2" "BBStackIndex s3 = BBStackIndex s2"
      "FNStackIndex s3 = FNStackIndex s2" "FNStack s3 = FNStack s2"
      "out s3 = out s2" "err s3 = err s2"
    by blast
  have run: "closeCacheFile sz s = Inr s3"
    using loop add fl by (simp add: closeCacheFile_def)
  have szp: "0 \<le> int sz" "0 \<le> int sz * uint (BBStackIndex s)"
    by (simp_all del: of_nat_0_le_iff)
  have top: "nextSlot sz s2 \<le> fileOffset (entryCache s3)"
    using nextSlot_le_window [OF inv2] fo3 by simp
  have en: "traceFile s3 (nextSlot sz s + int sz * uint (BBStackIndex s)) = Some (newEntry ENType 0 0 0)"
  proof -
    have "nextSlot sz s1 + int sz \<le> fileOffset (entryCache s3)"
      using top nx2 by simp
    from below3 [OF this] here2 nx1 show ?thesis
      by simp
  qed
  have room: "nextSlot sz s + int sz * uint (BBStackIndex s) + int sz \<le> fileOffset (entryCache s3)"
    using top nx2 nx1 by simp
  have keep: "traceFile s3 off = traceFile s off" if "off + int sz \<le> nextSlot sz s" for off
  proof -
    from that szp(2) nx1 have a: "off + int sz \<le> nextSlot sz s1"
      by linarith
    with nx2 top have "off + int sz \<le> fileOffset (entryCache s3)"
      by simp
    from below3 [OF this] below2 [OF a] below1 [OF that] show ?thesis
      by simp
  qed
  have ti: "trace_index s3 = trace_index s + BBStackIndex s + 1"
    using rest3(1) fr(8) ti1 by simp
  from run inv3 env3 ix3 en room keep ti rest3 fr rest1 bb1 show ?thesis
    by simp
qed

lemma closedOnce_eq: "closeCacheFile 32 initState = Inr closedOnce"
proof -
  have "BBStackIndex initState \<le> maxBBStack"
    by (simp add: initState_facts(3))
  from closeCacheFile_ok [OF initState_facts(1,2) this]
  obtain s1 where "closeCacheFile 32 initState = Inr s1"
    by blast
  then show ?thesis
    by (simp add: closedOnce_def outcomeState_def)
qed

lemma closedTwice_eq: "closeCacheFile 32 closedOnce = Inr closedTwice"
proof -
  have "BBStackIndex initState \<le> maxBBStack"
    by (simp add: initState_facts(3))
  from closeCacheFile_ok [OF initState_facts(1,2) this] closedOnce_eq
  have inv: "cacheInv 32 closedOnce" and env: "mmapFails closedOnce = []"
    and bb: "BBStackIndex closedOnce = 0"
    by auto
  from bb have "BBStackIndex closedOnce \<le> maxBBStack"
    by simp
  from closeCacheFile_ok [OF inv env this]
  obtain s2 where "closeCacheFile 32 closedOnce = Inr s2"
    by blast
  then show ?thesis
    by (simp add: closedTwice_def outcomeState_def)
qed

section \<open>Block starts\<close>

text \<open>
  The three ways \<open>recordStartBB\<close> ends: a push, the abort on a full stack, and the
  forced teardown for the id 190531. The last lemma follows that path one step further
  at the state after \<open>recordInit\<close>: the handler of \<open>SIGABRT\<close> exits, and the exit
  runs \<open>closeCacheFile\<close> again.
\<close>

lemma recordStartBB_push:
  assumes "i \<noteq> 190531" and "BBStackIndex s < maxBBStack"
  shows "\<exists>s'. recordStartBB sz i fp s = Inr s'
           \<and> traceFile s' = traceFile s \<and> entryCache s' = entryCache s
           \<and> trace_index s' = trace_index s \<and> filePos s' = filePos s
           \<and> mmapFails s' = mmapFails s
           \<and> BBStackIndex s' = BBStackIndex s + 1
           \<and> BBStack s' = (BBStack s)(BBStackIndex s := \<lparr>bbid = i, bbaddress = fp\<rparr>)
           \<and> FNStackIndex s' = FNStackIndex s \<and> FNStack s' = FNStack s
           \<and> err s' = err s
           \<and> out s' = (if i \<ge> 190525 \<and> i \<le> 190532 then out s @ [AtBasicBlockStart i] else out s)"
proof -
  from assms(2) have "BBStackIndex s \<noteq> maxBBStack"
    by simp
  with assms show ?thesis
    by (simp add: recordStartBB_def checkForNonHandlerThread_def Let_def)
qed




lemma forced_teardown_runs_twice:
  "recordStartBB 32 190531 4096 initState
     = Inl (Abort (outcomeState (recordStartBB 32 190531 4096 initState)))
   \<and> handlersInstalled (outcomeState (recordStartBB 32 190531 4096 initState))
   \<and> atexitRegistered (outcomeState (recordStartBB 32 190531 4096 initState))
   \<and> trace_index (errorState (raiseSIGABRT 32
        (outcomeState (recordStartBB 32 190531 4096 initState)))) = 3
   \<and> traceFile (errorState (raiseSIGABRT 32
        (outcomeState (recordStartBB 32 190531 4096 initState)))) 268435456
       = Some (newEntry ENType 0 0 0)"
  by (simp add: run_defs raiseSIGABRT_def cleanup_only_tracing_def exitProcess_def)

section \<open>Properties of the hooks and of the teardown\<close>

text \<open>
  C2: the cursor of the entry cache stays between 0 and the capacity. If it is within the
  capacity before \<open>addToEntryCache\<close>, it is so after: the call rotates exactly when
  the cursor equals the capacity, which sets the cursor to 0 and moves the file offset
  forward by the byte size of one window, and then it stores the entry at the cursor
  and moves the cursor by one. With the invariant of \<open>recordInit\<close> and a mapping that
  succeeds the call returns. Every hook keeps the cursor within the capacity, and
  \<open>flushCache\<close>, \<open>closeCacheFile\<close> and \<open>openFD\<close> leave it at 0.
\<close>

theorem entryCache_cursor_within_capacity:
  "(index (entryCache s) \<le> entryCacheSize sz \<and> addToEntryCache sz e s = Inr s' \<longrightarrow>
      index (entryCache s') \<le> entryCacheSize sz \<and> trace_index s' = trace_index s + 1
      \<and> (if index (entryCache s) = entryCacheSize sz
          then index (entryCache s') = 1
            \<and> fileOffset (entryCache s') = fileOffset (entryCache s) + int entryCacheSizeinBytes
            \<and> cache (entryCache s') = Some (fileOffset (entryCache s'))
            \<and> traceFile s' (fileOffset (entryCache s')) = Some e
          else index (entryCache s') = index (entryCache s) + 1
            \<and> fileOffset (entryCache s') = fileOffset (entryCache s)
            \<and> cache (entryCache s') = cache (entryCache s)
            \<and> (\<exists>b. cache (entryCache s) = Some b
                  \<and> traceFile s' (b + int sz * uint (index (entryCache s))) = Some e)))
   \<and> (cacheInv sz s \<and> mmapFails s = [] \<longrightarrow> (\<exists>t. addToEntryCache sz e s = Inr t))
   \<and> (index (entryCache s) \<le> entryCacheSize sz \<and> runHook sz h s = Inr s' \<longrightarrow>
        index (entryCache s') \<le> entryCacheSize sz)
   \<and> (flushCache sz s = Inr s' \<longrightarrow>
        index (entryCache s') = 0
        \<and> fileOffset (entryCache s') = fileOffset (entryCache s) + int entryCacheSizeinBytes)
   \<and> (closeCacheFile sz s = Inr s' \<longrightarrow> index (entryCache s') = 0)
   \<and> (openFD sz FD s = Inr s' \<longrightarrow> index (entryCache s') = 0)"
proof (intro conjI impI)
  assume "index (entryCache s) \<le> entryCacheSize sz \<and> addToEntryCache sz e s = Inr s'"
  then have le: "index (entryCache s) \<le> entryCacheSize sz"
    and add: "addToEntryCache sz e s = Inr s'"
    by simp_all
  note c = addToEntryCache_cursor [OF le add]
  from c show "index (entryCache s') \<le> entryCacheSize sz" by simp
  from c show "trace_index s' = trace_index s + 1" by simp
  from c [THEN conjunct2, THEN conjunct2]
  show "if index (entryCache s) = entryCacheSize sz
          then index (entryCache s') = 1
            \<and> fileOffset (entryCache s') = fileOffset (entryCache s) + int entryCacheSizeinBytes
            \<and> cache (entryCache s') = Some (fileOffset (entryCache s'))
            \<and> traceFile s' (fileOffset (entryCache s')) = Some e
          else index (entryCache s') = index (entryCache s) + 1
            \<and> fileOffset (entryCache s') = fileOffset (entryCache s)
            \<and> cache (entryCache s') = cache (entryCache s)
            \<and> (\<exists>b. cache (entryCache s) = Some b
                  \<and> traceFile s' (b + int sz * uint (index (entryCache s))) = Some e)" .
next
  assume "cacheInv sz s \<and> mmapFails s = []"
  then show "\<exists>t. addToEntryCache sz e s = Inr t"
    using addToEntryCache_inv [of sz s e] by blast
next
  assume "index (entryCache s) \<le> entryCacheSize sz \<and> runHook sz h s = Inr s'"
  then show "index (entryCache s') \<le> entryCacheSize sz"
    using runHook_cursor by blast
next
  assume fl: "flushCache sz s = Inr s'"
  from flushCache_result(1) [OF fl] show "index (entryCache s') = 0" .
  from flushCache_result(2) [OF fl]
  show "fileOffset (entryCache s') = fileOffset (entryCache s) + int entryCacheSizeinBytes" .
next
  assume "closeCacheFile sz s = Inr s'"
  then show "index (entryCache s') = 0"
    by (rule closeCacheFile_cursor)
next
  assume "openFD sz FD s = Inr s'"
  then show "index (entryCache s') = 0"
    by (rule openFD_cursor(1))
qed

theorem entryCache_cursor_within_capacity_witness:
  "index (entryCache initState) \<le> entryCacheSize 32
   \<and> cacheInv 32 initState \<and> mmapFails initState = []
   \<and> (\<exists>s'. addToEntryCache 32 (newEntry LDType 2 8192 8) initState = Inr s'
         \<and> runHook 32 (Load 2 8192 8) initState = Inr s'
         \<and> index (entryCache s') = 1 \<and> index (entryCache s') \<le> entryCacheSize 32
         \<and> fileOffset (entryCache s') = 0
         \<and> traceFile s' 0 = Some (newEntry LDType 2 8192 8))
   \<and> (\<exists>s'. flushCache 32 initState = Inr s' \<and> index (entryCache s') = 0
         \<and> fileOffset (entryCache s') = 268435456)
   \<and> (\<exists>s'. closeCacheFile 32 initState = Inr s' \<and> index (entryCache s') = 0)
   \<and> (\<exists>s'. openFD 32 3 startState = Inr s' \<and> index (entryCache s') = 0)"
proof -
  note f = initState_facts
  from f(1) have le: "index (entryCache initState) \<le> entryCacheSize 32"
    by (simp add: cacheInv_def)
  have ne: "index (entryCache initState) \<noteq> entryCacheSize 32"
    by (simp add: f(5) entryCacheSize_def entryCacheSizeinBytes_def)
  have ca: "cache (entryCache initState) = Some 0"
    using f(1,6) by (simp add: cacheInv_def nextSlot_def f(5))
  note main = entryCache_cursor_within_capacity
  from main [of initState 32 "newEntry LDType 2 8192 8"] f(1,2)
  obtain t where add: "addToEntryCache 32 (newEntry LDType 2 8192 8) initState = Inr t"
    by blast
  have hook: "runHook 32 (Load 2 8192 8) initState = Inr t"
    using add by (simp add: recordLoad_def checkForNonHandlerThread_def)
  from main [of initState 32 "newEntry LDType 2 8192 8" t "Load 2 8192 8"] le add ne ca f(5)
  have a: "index (entryCache t) = 1" "fileOffset (entryCache t) = fileOffset (entryCache initState)"
    "traceFile t 0 = Some (newEntry LDType 2 8192 8)"
    by auto
  from main [of initState 32 "newEntry LDType 2 8192 8" t "Load 2 8192 8"] le hook
  have b: "index (entryCache t) \<le> entryCacheSize 32"
    by blast
  have fo: "fileOffset (entryCache initState) = 0"
    using f(6) by (simp add: nextSlot_def f(5))
  have "\<exists>u. flushCache 32 initState = Inr u"
    using flushEntryCache_inv [OF f(1,2)] by (auto simp: flushEntryCache_def)
  then obtain u where fl: "flushCache 32 initState = Inr u"
    by blast
  from main [of initState 32 _ u] fl fo
  have c: "index (entryCache u) = 0" "fileOffset (entryCache u) = 268435456"
    by (auto simp: entryCacheSizeinBytes_def)
  have "BBStackIndex initState \<le> maxBBStack"
    by (simp add: f(3))
  from closeCacheFile_ok [OF f(1,2) this]
  obtain v where cl: "closeCacheFile 32 initState = Inr v"
    by blast
  from main [of initState 32 _ v] cl have d: "index (entryCache v) = 0"
    by blast
  have "\<exists>w. openFD 32 3 startState = Inr w"
    by (simp add: openFD_def mapWindow_def extendFile_def Let_def startState_def)
  then obtain w where op: "openFD 32 3 startState = Inr w"
    by blast
  from main [of startState 32 _ w _ 3] op have e: "index (entryCache w) = 0"
    by blast
  from le f(1,2) add hook a b fo fl c cl d op e show ?thesis
    by auto
qed

text \<open>
  C3: when \<open>recordBB\<close> is called with the last-block flag set and the function stack
  empty, it returns, the entry it has appended is a basic-block entry for the block
  whose call id (the length field) is the word of all ones, \<open>~0\<close> as an unsigned
  32-bit value, and the function stack is still empty.
\<close>

theorem recordBB_outermost_sentinel:
  assumes "cacheInv sz s" and "mmapFails s = []" and "lastBB \<noteq> 0" and "FNStackIndex s = 0"
  shows "\<exists>s'. recordBB sz i fp lastBB s = Inr s'
           \<and> lastEntry sz s' = Some \<lparr>etype = BBType, eid = i, eaddress = fp, elength = 4294967295\<rparr>
           \<and> trace_index s' = trace_index s + 1
           \<and> FNStackIndex s' = 0 \<and> FNStack s' = FNStack s"
proof -
  let ?s1 = "if i \<ge> 190525 \<and> i \<le> 190532 then s\<lparr>out := out s @ [AtBasicBlockEnd i]\<rparr> else s"
  have inv1: "cacheInv sz ?s1" and env1: "mmapFails ?s1 = []"
    using assms(1,2) by simp_all
  have cid: "recordBB_callID i fp lastBB ?s1 = Inr (?s1, NOT 0)"
    using assms(3,4) by (simp add: recordBB_callID_def)
  from addToEntryCache_appends [OF inv1 env1, of "newEntry BBType i fp (ucast (NOT 0 :: u32))"]
  obtain s3 where add: "addToEntryCache sz (newEntry BBType i fp (ucast (NOT 0 :: u32))) ?s1 = Inr s3"
    and last: "lastEntry sz s3 = Some (newEntry BBType i fp (ucast (NOT 0 :: u32)))"
    and ti: "trace_index s3 = trace_index ?s1 + 1"
    and fi: "FNStackIndex s3 = FNStackIndex ?s1" and fs: "FNStack s3 = FNStack ?s1"
    by blast
  have "recordBB sz i fp lastBB s = Inr (s3\<lparr>BBStackIndex := BBStackIndex s3 - 1\<rparr>)"
    using cid add by (simp add: recordBB_def checkForNonHandlerThread_def Let_def)
  moreover have "lastEntry sz (s3\<lparr>BBStackIndex := BBStackIndex s3 - 1\<rparr>)
      = Some \<lparr>etype = BBType, eid = i, eaddress = fp, elength = 4294967295\<rparr>"
    using last by (simp add: newEntry_def sentinel_ucast [simplified])
  ultimately show ?thesis
    using ti fi fs assms(4) by simp
qed

theorem recordBB_outermost_sentinel_witness:
  "cacheInv 32 initState \<and> mmapFails initState = [] \<and> (1 :: u32) \<noteq> 0
   \<and> FNStackIndex initState = 0
   \<and> (\<exists>s'. recordBB 32 1 4096 1 initState = Inr s'
         \<and> lastEntry 32 s' = Some \<lparr>etype = BBType, eid = 1, eaddress = 4096, elength = 4294967295\<rparr>
         \<and> trace_index s' = trace_index initState + 1
         \<and> FNStackIndex s' = 0 \<and> FNStack s' = FNStack initState)"
proof -
  have nz: "(1 :: u32) \<noteq> 0"
    by simp
  from recordBB_outermost_sentinel [OF initState_facts(1,2) nz initState_facts(4), of 1 4096]
    initState_facts(1,2,4) nz
  show ?thesis
    by blast
qed

text \<open>
  C4: when \<open>recordBB\<close> is called with the last-block flag set, the function stack not
  empty and the function address on its top different from the hook's, the hook returns
  (it does not abort), the mismatch message is added to the error stream, the function
  stack has the same index and the same contents as before, and a basic-block entry for
  the block has been appended (its call id is 0).
\<close>

theorem recordBB_mismatch_logged:
  assumes "cacheInv sz s" and "mmapFails s = []" and "lastBB \<noteq> 0"
    and "0 < FNStackIndex s" and "FNStackIndex s \<le> maxFNStack"
    and "fnAddress (FNStack s (FNStackIndex s - 1)) \<noteq> fp"
  shows "\<exists>s'. recordBB sz i fp lastBB s = Inr s'
           \<and> err s' = err s @ [FunctionIdMismatch i]
           \<and> FNStackIndex s' = FNStackIndex s \<and> FNStack s' = FNStack s
           \<and> lastEntry sz s' = Some \<lparr>etype = BBType, eid = i, eaddress = fp, elength = 0\<rparr>
           \<and> trace_index s' = trace_index s + 1"
proof -
  let ?s1 = "if i \<ge> 190525 \<and> i \<le> 190532 then s\<lparr>out := out s @ [AtBasicBlockEnd i]\<rparr> else s"
  let ?s2 = "?s1\<lparr>err := err ?s1 @ [FunctionIdMismatch i]\<rparr>"
  have inb: "FNStackIndex s - 1 < maxFNStack"
    using assms(4,5) by (rule word_pred_less)
  have cid: "recordBB_callID i fp lastBB ?s1 = Inr (?s2, 0)"
    using assms(3,4,6) inb by (simp add: recordBB_callID_def)
  have inv2: "cacheInv sz ?s2" and env2: "mmapFails ?s2 = []"
    using assms(1,2) by simp_all
  from addToEntryCache_appends [OF inv2 env2, of "newEntry BBType i fp (ucast (0 :: u32))"]
  obtain s3 where add: "addToEntryCache sz (newEntry BBType i fp (ucast (0 :: u32))) ?s2 = Inr s3"
    and last: "lastEntry sz s3 = Some (newEntry BBType i fp (ucast (0 :: u32)))"
    and ti: "trace_index s3 = trace_index ?s2 + 1"
    and fi: "FNStackIndex s3 = FNStackIndex ?s2" and fs: "FNStack s3 = FNStack ?s2"
    and er: "err s3 = err ?s2"
    by blast
  have "recordBB sz i fp lastBB s = Inr (s3\<lparr>BBStackIndex := BBStackIndex s3 - 1\<rparr>)"
    using cid add by (simp add: recordBB_def checkForNonHandlerThread_def Let_def)
  moreover have "lastEntry sz (s3\<lparr>BBStackIndex := BBStackIndex s3 - 1\<rparr>)
      = Some \<lparr>etype = BBType, eid = i, eaddress = fp, elength = 0\<rparr>"
    using last by (simp add: newEntry_def)
  ultimately show ?thesis
    using ti fi fs er by simp
qed

theorem recordBB_mismatch_logged_witness:
  "\<exists>s. recordCall 32 7 40960 initState = Inr s
      \<and> cacheInv 32 s \<and> mmapFails s = [] \<and> (1 :: u32) \<noteq> 0
      \<and> 0 < FNStackIndex s \<and> FNStackIndex s \<le> maxFNStack
      \<and> fnAddress (FNStack s (FNStackIndex s - 1)) = 40960
      \<and> (\<exists>s'. recordBB 32 1 45056 1 s = Inr s'
            \<and> err s' = err s @ [FunctionIdMismatch 1]
            \<and> FNStackIndex s' = FNStackIndex s \<and> FNStack s' = FNStack s
            \<and> fnAddress (FNStack s' (FNStackIndex s' - 1)) = 40960
            \<and> lastEntry 32 s' = Some \<lparr>etype = BBType, eid = 1, eaddress = 45056, elength = 0\<rparr>
            \<and> trace_index s' = trace_index s + 1)"
proof -
  note f = initState_facts
  have le0: "FNStackIndex initState \<le> maxFNStack"
    by (simp add: f(4))
  have ne0: "FNStackIndex initState \<noteq> maxFNStack"
    by (simp add: f(4) maxFNStack_def)
  from recordCall_ok [OF f(1,2) le0, of 7 40960] ne0
  obtain s where call: "recordCall 32 7 40960 initState = Inr s"
    and inv: "cacheInv 32 s" and env: "mmapFails s = []"
    and fi: "FNStackIndex s = 1"
    and fs: "FNStack s = (FNStack initState)(0 := \<lparr>fnid = 7, fnAddress = 40960\<rparr>)"
    by (auto simp: f(4))
  have nz: "(1 :: u32) \<noteq> 0"
    by simp
  have pos: "0 < FNStackIndex s" and le: "FNStackIndex s \<le> maxFNStack"
    by (simp_all add: fi maxFNStack_def)
  have top: "fnAddress (FNStack s (FNStackIndex s - 1)) = 40960"
    by (simp add: fi fs)
  then have mis: "fnAddress (FNStack s (FNStackIndex s - 1)) \<noteq> 45056"
    by simp
  from recordBB_mismatch_logged [OF inv env nz pos le mis, of 1]
  obtain s' where "recordBB 32 1 45056 1 s = Inr s'"
    and "err s' = err s @ [FunctionIdMismatch 1]"
    and "FNStackIndex s' = FNStackIndex s" and "FNStack s' = FNStack s"
    and "lastEntry 32 s' = Some \<lparr>etype = BBType, eid = 1, eaddress = 45056, elength = 0\<rparr>"
    and "trace_index s' = trace_index s + 1"
    by blast
  with call inv env nz pos le top show ?thesis
    by auto
qed







text \<open>
  C7: \<open>recordCall\<close> appends the call entry first, at every call and whatever the
  function stack holds: if the append does not return, the hook ends with the same
  outcome, and whenever the hook returns the append has returned, the call entry is the
  last argument of \<open>addToEntryCache\<close>, and file and cache are as the append left them.
  With room on the function stack the hook then pushes the frame. With the function
  stack full, the hook returns (no abort), the call entry has been appended, the
  overflow message is on the error stream, the stack and its index (still the maximum)
  are unchanged, and the hooks that follow go on appending: a load and a further call
  each return with their entry appended.
\<close>

theorem recordCall_tolerates_overflow:
  "(\<forall>x. addToEntryCache sz (newEntry CLType i fp 0) s = Inl x \<longrightarrow> recordCall sz i fp s = Inl x)
   \<and> (\<forall>t. recordCall sz i fp s = Inr t \<longrightarrow>
          (\<exists>s1. addToEntryCache sz (newEntry CLType i fp 0) s = Inr s1
             \<and> traceFile t = traceFile s1 \<and> entryCache t = entryCache s1
             \<and> appended t = appended s @ [newEntry CLType i fp 0]
             \<and> trace_index t = trace_index s + 1))
   \<and> (cacheInv sz s \<and> mmapFails s = [] \<and> FNStackIndex s < maxFNStack \<longrightarrow>
        (\<exists>s'. recordCall sz i fp s = Inr s'
           \<and> lastEntry sz s' = Some (newEntry CLType i fp 0)
           \<and> trace_index s' = trace_index s + 1
           \<and> FNStackIndex s' = FNStackIndex s + 1
           \<and> FNStack s' = (FNStack s)(FNStackIndex s := \<lparr>fnid = i, fnAddress = fp\<rparr>)
           \<and> err s' = err s))
   \<and> (cacheInv sz s \<and> mmapFails s = [] \<and> FNStackIndex s = maxFNStack \<longrightarrow>
        (\<exists>s'. recordCall sz i fp s = Inr s'
           \<and> lastEntry sz s' = Some (newEntry CLType i fp 0)
           \<and> trace_index s' = trace_index s + 1
           \<and> FNStackIndex s' = maxFNStack \<and> FNStack s' = FNStack s
           \<and> err s' = err s @ [FNStackOverflowed]
           \<and> (\<exists>s''. recordLoad sz j p len s' = Inr s''
                 \<and> lastEntry sz s'' = Some (newEntry LDType j p len)
                 \<and> trace_index s'' = trace_index s + 2)
           \<and> (\<exists>s''. recordCall sz j p s' = Inr s''
                 \<and> lastEntry sz s'' = Some (newEntry CLType j p 0)
                 \<and> trace_index s'' = trace_index s + 2
                 \<and> FNStackIndex s'' = maxFNStack)))"
proof (intro conjI allI impI)
  fix x
  assume "addToEntryCache sz (newEntry CLType i fp 0) s = Inl x"
  then show "recordCall sz i fp s = Inl x"
    by (simp add: recordCall_def checkForNonHandlerThread_def)
next
  fix t
  assume ret: "recordCall sz i fp s = Inr t"
  then obtain s1 where add: "addToEntryCache sz (newEntry CLType i fp 0) s = Inr s1"
    and same: "traceFile t = traceFile s1" "entryCache t = entryCache s1"
      "appended t = appended s1" "trace_index t = trace_index s1"
    by (auto simp: recordCall_def checkForNonHandlerThread_def split: sum.splits if_splits)
  note fr = addToEntryCache_frame [OF add]
  from add same fr(8,11)
  show "\<exists>s1. addToEntryCache sz (newEntry CLType i fp 0) s = Inr s1
             \<and> traceFile t = traceFile s1 \<and> entryCache t = entryCache s1
             \<and> appended t = appended s @ [newEntry CLType i fp 0]
             \<and> trace_index t = trace_index s + 1"
    by simp
next
  assume h: "cacheInv sz s \<and> mmapFails s = [] \<and> FNStackIndex s < maxFNStack"
  then have inv: "cacheInv sz s" and env: "mmapFails s = []"
    and le: "FNStackIndex s \<le> maxFNStack" and ne: "FNStackIndex s \<noteq> maxFNStack"
    by auto
  from recordCall_ok [OF inv env le, of i fp] ne
  show "\<exists>s'. recordCall sz i fp s = Inr s'
           \<and> lastEntry sz s' = Some (newEntry CLType i fp 0)
           \<and> trace_index s' = trace_index s + 1
           \<and> FNStackIndex s' = FNStackIndex s + 1
           \<and> FNStack s' = (FNStack s)(FNStackIndex s := \<lparr>fnid = i, fnAddress = fp\<rparr>)
           \<and> err s' = err s"
    by auto
next
  assume h: "cacheInv sz s \<and> mmapFails s = [] \<and> FNStackIndex s = maxFNStack"
  then have inv: "cacheInv sz s" and env: "mmapFails s = []"
    and full: "FNStackIndex s = maxFNStack" and le: "FNStackIndex s \<le> maxFNStack"
    by simp_all
  from recordCall_ok [OF inv env le, of i fp] full
  obtain s' where call: "recordCall sz i fp s = Inr s'"
    and inv': "cacheInv sz s'" and env': "mmapFails s' = []"
    and last: "lastEntry sz s' = Some (newEntry CLType i fp 0)"
    and ti: "trace_index s' = trace_index s + 1"
    and fi: "FNStackIndex s' = maxFNStack" and fs: "FNStack s' = FNStack s"
    and er: "err s' = err s @ [FNStackOverflowed]"
    by auto
  from recordLoad_ok [OF inv' env', of j p len] ti
  have load: "\<exists>s''. recordLoad sz j p len s' = Inr s''
                 \<and> lastEntry sz s'' = Some (newEntry LDType j p len)
                 \<and> trace_index s'' = trace_index s + 2"
    by auto
  from fi have le': "FNStackIndex s' \<le> maxFNStack"
    by simp
  from recordCall_ok [OF inv' env' le', of j p] fi ti
  have again: "\<exists>s''. recordCall sz j p s' = Inr s''
                 \<and> lastEntry sz s'' = Some (newEntry CLType j p 0)
                 \<and> trace_index s'' = trace_index s + 2
                 \<and> FNStackIndex s'' = maxFNStack"
    by auto
  from call last ti fi fs er load again
  show "\<exists>s'. recordCall sz i fp s = Inr s'
           \<and> lastEntry sz s' = Some (newEntry CLType i fp 0)
           \<and> trace_index s' = trace_index s + 1
           \<and> FNStackIndex s' = maxFNStack \<and> FNStack s' = FNStack s
           \<and> err s' = err s @ [FNStackOverflowed]
           \<and> (\<exists>s''. recordLoad sz j p len s' = Inr s''
                 \<and> lastEntry sz s'' = Some (newEntry LDType j p len)
                 \<and> trace_index s'' = trace_index s + 2)
           \<and> (\<exists>s''. recordCall sz j p s' = Inr s''
                 \<and> lastEntry sz s'' = Some (newEntry CLType j p 0)
                 \<and> trace_index s'' = trace_index s + 2
                 \<and> FNStackIndex s'' = maxFNStack)"
    by blast
qed

theorem recordCall_tolerates_overflow_witness:
  "isl (addToEntryCache 32 (newEntry CLType 7 40960 0) startState)
   \<and> recordCall 32 7 40960 startState = addToEntryCache 32 (newEntry CLType 7 40960 0) startState
   \<and> cacheInv 32 initState \<and> mmapFails initState = [] \<and> FNStackIndex initState < maxFNStack
   \<and> (\<exists>t s1. recordCall 32 7 40960 initState = Inr t
         \<and> addToEntryCache 32 (newEntry CLType 7 40960 0) initState = Inr s1
         \<and> traceFile t = traceFile s1
         \<and> appended t = appended initState @ [newEntry CLType 7 40960 0]
         \<and> lastEntry 32 t = Some (newEntry CLType 7 40960 0)
         \<and> FNStackIndex t = FNStackIndex initState + 1
         \<and> FNStack t = (FNStack initState)(FNStackIndex initState := \<lparr>fnid = 7, fnAddress = 40960\<rparr>))
   \<and> (\<exists>s. runHooks 32 (replicate 4096 (Call 7 40960)) initState = Inr s
         \<and> cacheInv 32 s \<and> mmapFails s = [] \<and> FNStackIndex s = maxFNStack
         \<and> (\<exists>s'. recordCall 32 8 40960 s = Inr s'
               \<and> lastEntry 32 s' = Some (newEntry CLType 8 40960 0)
               \<and> FNStackIndex s' = maxFNStack \<and> FNStack s' = FNStack s
               \<and> err s' = err s @ [FNStackOverflowed]
               \<and> (\<exists>s''. recordLoad 32 9 8192 8 s' = Inr s''
                     \<and> lastEntry 32 s'' = Some (newEntry LDType 9 8192 8))))"
proof -
  note f = initState_facts
  note main = recordCall_tolerates_overflow
  have add: "addToEntryCache 32 (newEntry CLType 7 40960 0) startState
      = Inl (Fault (startState\<lparr>appended := appended startState @ [newEntry CLType 7 40960 0]\<rparr>))"
    by (simp add: addToEntryCache_def startState_def entryCacheSize_def entryCacheSizeinBytes_def)
  then have a1: "isl (addToEntryCache 32 (newEntry CLType 7 40960 0) startState)"
    by simp
  from add main [of 32 7 40960 startState]
  have a2: "recordCall 32 7 40960 startState = addToEntryCache 32 (newEntry CLType 7 40960 0) startState"
    by simp
  have lt: "FNStackIndex initState < maxFNStack"
    by (simp add: f(4) maxFNStack_def)
  from main [of 32 7 40960 initState] f(1,2) lt
  obtain t where c0: "recordCall 32 7 40960 initState = Inr t"
    and l0: "lastEntry 32 t = Some (newEntry CLType 7 40960 0)"
    and fi0: "FNStackIndex t = FNStackIndex initState + 1"
    and fs0: "FNStack t = (FNStack initState)(FNStackIndex initState := \<lparr>fnid = 7, fnAddress = 40960\<rparr>)"
    by blast
  from main [of 32 7 40960 initState] c0
  obtain s1 where ad0: "addToEntryCache 32 (newEntry CLType 7 40960 0) initState = Inr s1"
    and tf0: "traceFile t = traceFile s1"
    and ap0: "appended t = appended initState @ [newEntry CLType 7 40960 0]"
    by blast
  from c0 ad0 tf0 ap0 l0 fi0 fs0
  have b: "\<exists>t s1. recordCall 32 7 40960 initState = Inr t
         \<and> addToEntryCache 32 (newEntry CLType 7 40960 0) initState = Inr s1
         \<and> traceFile t = traceFile s1
         \<and> appended t = appended initState @ [newEntry CLType 7 40960 0]
         \<and> lastEntry 32 t = Some (newEntry CLType 7 40960 0)
         \<and> FNStackIndex t = FNStackIndex initState + 1
         \<and> FNStack t = (FNStack initState)(FNStackIndex initState := \<lparr>fnid = 7, fnAddress = 40960\<rparr>)"
    by blast
  have room: "unat (FNStackIndex initState) + 4096 \<le> 4096"
    by (simp add: f(4))
  from recordCalls_fill [OF f(1,2) room, of 7 40960]
  obtain s where run: "runHooks 32 (replicate 4096 (Call 7 40960)) initState = Inr s"
    and inv: "cacheInv 32 s" and env: "mmapFails s = []"
    and un: "unat (FNStackIndex s) = unat (FNStackIndex initState) + 4096"
    by blast
  from un have "unat (FNStackIndex s) = unat maxFNStack"
    by (simp add: f(4) maxFNStack_def)
  then have full: "FNStackIndex s = maxFNStack"
    by (simp only: word_unat_eq_iff)
  from main [of 32 8 40960 s 9 8192 8] inv env full
  obtain s' where c: "recordCall 32 8 40960 s = Inr s'"
    and l: "lastEntry 32 s' = Some (newEntry CLType 8 40960 0)"
    and fi: "FNStackIndex s' = maxFNStack" "FNStack s' = FNStack s"
    and er: "err s' = err s @ [FNStackOverflowed]"
    and ld: "\<exists>s''. recordLoad 32 9 8192 8 s' = Inr s''
                 \<and> lastEntry 32 s'' = Some (newEntry LDType 9 8192 8)
                 \<and> trace_index s'' = trace_index s + 2"
    by blast
  from ld have ld': "\<exists>s''. recordLoad 32 9 8192 8 s' = Inr s''
                 \<and> lastEntry 32 s'' = Some (newEntry LDType 9 8192 8)"
    by blast
  from run inv env full c l fi er ld'
  have d: "\<exists>s. runHooks 32 (replicate 4096 (Call 7 40960)) initState = Inr s
         \<and> cacheInv 32 s \<and> mmapFails s = [] \<and> FNStackIndex s = maxFNStack
         \<and> (\<exists>s'. recordCall 32 8 40960 s = Inr s'
               \<and> lastEntry 32 s' = Some (newEntry CLType 8 40960 0)
               \<and> FNStackIndex s' = maxFNStack \<and> FNStack s' = FNStack s
               \<and> err s' = err s @ [FNStackOverflowed]
               \<and> (\<exists>s''. recordLoad 32 9 8192 8 s' = Inr s''
                     \<and> lastEntry 32 s'' = Some (newEntry LDType 9 8192 8)))"
    by blast
  from a1 a2 f(1,2) lt b d show ?thesis
    by blast
qed

text \<open>
  C8, as amended: \<open>closeCacheFile\<close> has no guard against a second run. A second call
  prints its message again, finds the block stack empty, appends one more end entry, in
  the first slot of the window the first call left mapped, and rotates once more. What
  the first call left in the windows before that one, its own end entry included, is
  unchanged.
\<close>

theorem closeCacheFile_twice_appends_again:
  assumes "cacheInv sz s" and "mmapFails s = []" and "BBStackIndex s \<le> maxBBStack"
  shows "\<exists>s1 s2 offE. closeCacheFile sz s = Inr s1 \<and> closeCacheFile sz s1 = Inr s2
           \<and> BBStackIndex s1 = 0 \<and> index (entryCache s1) = 0
           \<and> traceFile s1 offE = Some (newEntry ENType 0 0 0)
           \<and> offE + int sz \<le> fileOffset (entryCache s1)
           \<and> trace_index s2 = trace_index s1 + 1
           \<and> traceFile s2 (fileOffset (entryCache s1)) = Some (newEntry ENType 0 0 0)
           \<and> fileOffset (entryCache s1) + int sz \<le> fileOffset (entryCache s2)
           \<and> out s2 = out s1 @ [WritingCacheData]
           \<and> (\<forall>off. off + int sz \<le> fileOffset (entryCache s1) \<longrightarrow> traceFile s2 off = traceFile s1 off)"
proof -
  from closeCacheFile_ok [OF assms]
  obtain s1 where c1: "closeCacheFile sz s = Inr s1"
    and inv1: "cacheInv sz s1" and env1: "mmapFails s1 = []"
    and bb1: "BBStackIndex s1 = 0" and ix1: "index (entryCache s1) = 0"
    and en1: "traceFile s1 (nextSlot sz s + int sz * uint (BBStackIndex s)) = Some (newEntry ENType 0 0 0)"
    and room1: "nextSlot sz s + int sz * uint (BBStackIndex s) + int sz \<le> fileOffset (entryCache s1)"
    by blast
  from bb1 have le1: "BBStackIndex s1 \<le> maxBBStack"
    by simp
  from ix1 have nx1: "nextSlot sz s1 = fileOffset (entryCache s1)"
    by (simp add: nextSlot_def)
  from closeCacheFile_ok [OF inv1 env1 le1]
  obtain s2 where c2: "closeCacheFile sz s1 = Inr s2"
    and en2: "traceFile s2 (nextSlot sz s1 + int sz * uint (BBStackIndex s1)) = Some (newEntry ENType 0 0 0)"
    and room2: "nextSlot sz s1 + int sz * uint (BBStackIndex s1) + int sz \<le> fileOffset (entryCache s2)"
    and keep2: "\<And>off. off + int sz \<le> nextSlot sz s1 \<Longrightarrow> traceFile s2 off = traceFile s1 off"
    and ti2: "trace_index s2 = trace_index s1 + BBStackIndex s1 + 1"
    and out2: "out s2 = out s1 @ [WritingCacheData]"
    by blast
  from en2 have en2': "traceFile s2 (fileOffset (entryCache s1)) = Some (newEntry ENType 0 0 0)"
    by (simp add: bb1 nx1)
  from room2 have room2': "fileOffset (entryCache s1) + int sz \<le> fileOffset (entryCache s2)"
    by (simp add: bb1 nx1)
  from ti2 have ti2': "trace_index s2 = trace_index s1 + 1"
    by (simp add: bb1)
  from keep2 have keep2': "\<forall>off. off + int sz \<le> fileOffset (entryCache s1) \<longrightarrow> traceFile s2 off = traceFile s1 off"
    by (simp add: nx1)
  from c1 c2 bb1 ix1 en1 room1 ti2' en2' room2' out2 keep2' show ?thesis
    by blast
qed

theorem closeCacheFile_twice_appends_again_witness:
  "cacheInv 32 initState \<and> mmapFails initState = [] \<and> BBStackIndex initState \<le> maxBBStack
   \<and> (\<exists>s1 s2 offE. closeCacheFile 32 initState = Inr s1 \<and> closeCacheFile 32 s1 = Inr s2
         \<and> trace_index s2 = trace_index s1 + 1
         \<and> traceFile s2 (fileOffset (entryCache s1)) = Some (newEntry ENType 0 0 0)
         \<and> offE + int 32 \<le> fileOffset (entryCache s1)
         \<and> traceFile s1 offE = Some (newEntry ENType 0 0 0)
         \<and> traceFile s2 offE = Some (newEntry ENType 0 0 0))"
proof -
  note f = initState_facts
  have le: "BBStackIndex initState \<le> maxBBStack"
    by (simp add: f(3))
  from closeCacheFile_twice_appends_again [OF f(1,2) le]
  obtain s1 s2 offE where c1: "closeCacheFile 32 initState = Inr s1"
    and c2: "closeCacheFile 32 s1 = Inr s2"
    and ti: "trace_index s2 = trace_index s1 + 1"
    and en2: "traceFile s2 (fileOffset (entryCache s1)) = Some (newEntry ENType 0 0 0)"
    and en1: "traceFile s1 offE = Some (newEntry ENType 0 0 0)"
    and before: "offE + int 32 \<le> fileOffset (entryCache s1)"
    and keep: "\<forall>off. off + int 32 \<le> fileOffset (entryCache s1) \<longrightarrow> traceFile s2 off = traceFile s1 off"
    by blast
  from keep before en1 have "traceFile s2 offE = Some (newEntry ENType 0 0 0)"
    by simp
  with f(1,2) le c1 c2 ti en2 en1 before show ?thesis
    by blast
qed

theorem closeCacheFile_twice_counterexample:
  "closeCacheFile 32 initState = Inr closedOnce
   \<and> closeCacheFile 32 closedOnce = Inr closedTwice
   \<and> trace_index closedOnce = 1 \<and> trace_index closedTwice = 2
   \<and> traceFile closedOnce 0 = Some (newEntry ENType 0 0 0)
   \<and> traceFile closedOnce 268435456 = None
   \<and> traceFile closedTwice 0 = Some (newEntry ENType 0 0 0)
   \<and> traceFile closedTwice 268435456 = Some (newEntry ENType 0 0 0)"
proof -
  have "trace_index closedOnce = 1 \<and> traceFile closedOnce 0 = Some (newEntry ENType 0 0 0)
      \<and> traceFile closedOnce 268435456 = None"
    by (simp add: closedOnce_def run_defs)
  moreover have "trace_index closedTwice = 2
      \<and> traceFile closedTwice 0 = Some (newEntry ENType 0 0 0)
      \<and> traceFile closedTwice 268435456 = Some (newEntry ENType 0 0 0)"
    by (simp add: closedTwice_def closedOnce_def run_defs)
  ultimately show ?thesis
    using closedOnce_eq closedTwice_eq by simp
qed

text \<open>
  C10: \<open>recordBB\<close> takes one off the index of the block stack on every call. Called
  with the block stack empty it leaves the index at \<open>2^32 - 1\<close>, outside the stack;
  called with an index between 1 and \<open>maxBBStack\<close> it leaves the index within the
  stack. So the bound on the index is kept only for a block end that has a block start
  still on the stack.
\<close>

theorem recordBB_decrements_unconditionally:
  assumes "cacheInv sz s" and "mmapFails s = []" and "FNStackIndex s \<le> maxFNStack"
  shows "\<exists>s'. recordBB sz i fp lastBB s = Inr s'
           \<and> BBStackIndex s' = BBStackIndex s - 1
           \<and> (BBStackIndex s = 0 \<longrightarrow>
                 unat (BBStackIndex s') = 2 ^ 32 - 1 \<and> \<not> BBStackIndex s' \<le> maxBBStack)
           \<and> (0 < BBStackIndex s \<and> BBStackIndex s \<le> maxBBStack \<longrightarrow>
                 BBStackIndex s' \<le> maxBBStack)"
proof -
  from recordBB_ok [OF assms, of i fp lastBB]
  obtain s' where run: "recordBB sz i fp lastBB s = Inr s'"
    and bb: "BBStackIndex s' = BBStackIndex s - 1"
    by blast
  have wrap: "unat (BBStackIndex s') = 2 ^ 32 - 1 \<and> \<not> BBStackIndex s' \<le> maxBBStack"
    if "BBStackIndex s = 0"
  proof -
    have "unat (- 1 :: u32) = 2 ^ 32 - 1"
      by (simp add: unsigned_minus_1_eq_mask mask_eq_exp_minus_1)
    with that bb show ?thesis
      by (simp add: maxBBStack_def word_le_nat_alt)
  qed
  have keep: "BBStackIndex s' \<le> maxBBStack"
    if "0 < BBStackIndex s \<and> BBStackIndex s \<le> maxBBStack"
    using that bb by (simp add: word_pred_le)
  from run bb wrap keep show ?thesis
    by blast
qed

theorem recordBB_decrements_unconditionally_witness:
  "cacheInv 32 initState \<and> mmapFails initState = [] \<and> FNStackIndex initState \<le> maxFNStack
   \<and> BBStackIndex initState = 0
   \<and> (\<exists>s'. recordBB 32 1 4096 0 initState = Inr s'
         \<and> unat (BBStackIndex s') = 4294967295 \<and> \<not> BBStackIndex s' \<le> maxBBStack)
   \<and> (\<exists>s s'. recordStartBB 32 1 4096 initState = Inr s
         \<and> cacheInv 32 s \<and> mmapFails s = [] \<and> FNStackIndex s \<le> maxFNStack
         \<and> 0 < BBStackIndex s \<and> BBStackIndex s \<le> maxBBStack
         \<and> recordBB 32 1 4096 0 s = Inr s'
         \<and> BBStackIndex s' = 0 \<and> BBStackIndex s' \<le> maxBBStack)"
proof -
  note f = initState_facts
  have le0: "FNStackIndex initState \<le> maxFNStack"
    by (simp add: f(4))
  from recordBB_decrements_unconditionally [OF f(1,2) le0, of 1 4096 0] f(3)
  have first: "\<exists>s'. recordBB 32 1 4096 0 initState = Inr s'
         \<and> unat (BBStackIndex s') = 4294967295 \<and> \<not> BBStackIndex s' \<le> maxBBStack"
    by auto
  have ne: "(1 :: u32) \<noteq> 190531"
    by simp
  have lt: "BBStackIndex initState < maxBBStack"
    by (simp add: f(3) maxBBStack_def)
  from recordStartBB_push [OF ne lt, of 32 4096]
  obtain s where push: "recordStartBB 32 1 4096 initState = Inr s"
    and ec: "entryCache s = entryCache initState" and fp: "filePos s = filePos initState"
    and env: "mmapFails s = mmapFails initState"
    and bb: "BBStackIndex s = BBStackIndex initState + 1"
    and fi: "FNStackIndex s = FNStackIndex initState"
    by blast
  have inv: "cacheInv 32 s"
    using f(1) by (simp add: cacheInv_def ec fp)
  have env': "mmapFails s = []"
    by (simp add: env f(2))
  have le: "FNStackIndex s \<le> maxFNStack"
    by (simp add: fi f(4))
  have pos: "0 < BBStackIndex s" and in_range: "BBStackIndex s \<le> maxBBStack"
    by (simp_all add: bb f(3) maxBBStack_def)
  from recordBB_decrements_unconditionally [OF inv env' le, of 1 4096 0] pos in_range
  obtain s' where "recordBB 32 1 4096 0 s = Inr s'"
    and "BBStackIndex s' = BBStackIndex s - 1" and "BBStackIndex s' \<le> maxBBStack"
    by blast
  with push inv env' le pos in_range bb f(3)
  have second: "\<exists>s s'. recordStartBB 32 1 4096 initState = Inr s
         \<and> cacheInv 32 s \<and> mmapFails s = [] \<and> FNStackIndex s \<le> maxFNStack
         \<and> 0 < BBStackIndex s \<and> BBStackIndex s \<le> maxBBStack
         \<and> recordBB 32 1 4096 0 s = Inr s'
         \<and> BBStackIndex s' = 0 \<and> BBStackIndex s' \<le> maxBBStack"
    by auto
  from f(1,2,3) le0 first second show ?thesis
    by blast
qed

section \<open>Thread gating\<close>


end
